theory Spec2Isabelle
  imports Complex_Main "HOL-Library.Multiset"
begin

section \<open>Beam statistics of PlasmaMLPALLAS\_Routine.py\<close>

text \<open>
  The script \<^verbatim>\<open>src/Resultats/PlasmaMLPALLAS_Routine.py\<close> defines two numeric
  functions, \<^verbatim>\<open>compute_emittance_and_twiss\<close> (lines 36-54) and
  \<^verbatim>\<open>compute_rms_size\<close> (lines 56-61), over numpy arrays of float64.

  A float64 is modelled as an extended real: a finite value carries a real number, and
  the three special values of IEEE 754 are constructors of their own; the two zeros of
  IEEE 754 are one. An operation on floats never raises, an invalid operation yields
  \<open>NaN\<close>, a comparison with \<open>NaN\<close> is false.

  The two functions are given twice. First with exact arithmetic on finite values,
  rounding and overflow left out: this version carries the properties of the masks, the
  sentinel, the normalisation, the signs and the permutations, which hold of the exact
  results. Then with every operation rounded as IEEE 754 binary64 rounds it: this version
  carries the two properties that say a computed number is exactly zero, which the
  rounding decides.
\<close>

subsection \<open>float64 values and the numpy operations the script uses\<close>

datatype npfloat = Fin real | PosInf | NegInf | NaN

fun np_isfinite :: "npfloat \<Rightarrow> bool" where
  "np_isfinite (Fin _) = True"
| "np_isfinite _ = False"

text \<open>Comparison of a float with a Python number (the limits and the literal 0).\<close>

fun np_ge :: "npfloat \<Rightarrow> real \<Rightarrow> bool" where
  "np_ge (Fin a) b = (a \<ge> b)"
| "np_ge PosInf _ = True"
| "np_ge NegInf _ = False"
| "np_ge NaN _ = False"

fun np_le :: "npfloat \<Rightarrow> real \<Rightarrow> bool" where
  "np_le (Fin a) b = (a \<le> b)"
| "np_le PosInf _ = False"
| "np_le NegInf _ = True"
| "np_le NaN _ = False"

fun np_gt :: "npfloat \<Rightarrow> real \<Rightarrow> bool" where
  "np_gt (Fin a) b = (a > b)"
| "np_gt PosInf _ = True"
| "np_gt NegInf _ = False"
| "np_gt NaN _ = False"

fun np_neg :: "npfloat \<Rightarrow> npfloat" where
  "np_neg (Fin a) = Fin (- a)"
| "np_neg PosInf = NegInf"
| "np_neg NegInf = PosInf"
| "np_neg NaN = NaN"

fun np_add :: "npfloat \<Rightarrow> npfloat \<Rightarrow> npfloat" where
  "np_add (Fin a) (Fin b) = Fin (a + b)"
| "np_add NaN _ = NaN"
| "np_add _ NaN = NaN"
| "np_add PosInf NegInf = NaN"
| "np_add NegInf PosInf = NaN"
| "np_add PosInf _ = PosInf"
| "np_add _ PosInf = PosInf"
| "np_add NegInf _ = NegInf"
| "np_add _ NegInf = NegInf"

definition np_sub :: "npfloat \<Rightarrow> npfloat \<Rightarrow> npfloat" where
  "np_sub a b = np_add a (np_neg b)"

text \<open>The product of an infinity and a finite value takes the sign of both; with zero it is invalid.\<close>

definition inf_times :: "bool \<Rightarrow> real \<Rightarrow> npfloat" where
  "inf_times positive a =
     (if a = 0 then NaN else if (0 < a) = positive then PosInf else NegInf)"

fun np_mul :: "npfloat \<Rightarrow> npfloat \<Rightarrow> npfloat" where
  "np_mul (Fin a) (Fin b) = Fin (a * b)"
| "np_mul NaN _ = NaN"
| "np_mul _ NaN = NaN"
| "np_mul (Fin a) PosInf = inf_times True a"
| "np_mul (Fin a) NegInf = inf_times False a"
| "np_mul PosInf (Fin b) = inf_times True b"
| "np_mul NegInf (Fin b) = inf_times False b"
| "np_mul PosInf PosInf = PosInf"
| "np_mul PosInf NegInf = NegInf"
| "np_mul NegInf PosInf = NegInf"
| "np_mul NegInf NegInf = PosInf"

text \<open>
  Division: a finite value divided by zero is an infinity of its sign, and zero by zero
  is invalid (the zero divisor is taken as positive).
\<close>

fun np_div :: "npfloat \<Rightarrow> npfloat \<Rightarrow> npfloat" where
  "np_div (Fin a) (Fin b) =
     (if b = 0 then (if a = 0 then NaN else if 0 < a then PosInf else NegInf)
      else Fin (a / b))"
| "np_div NaN _ = NaN"
| "np_div _ NaN = NaN"
| "np_div (Fin a) PosInf = Fin 0"
| "np_div (Fin a) NegInf = Fin 0"
| "np_div PosInf (Fin b) = (if 0 \<le> b then PosInf else NegInf)"
| "np_div NegInf (Fin b) = (if 0 \<le> b then NegInf else PosInf)"
| "np_div PosInf PosInf = NaN"
| "np_div PosInf NegInf = NaN"
| "np_div NegInf PosInf = NaN"
| "np_div NegInf NegInf = NaN"

fun np_sqrt :: "npfloat \<Rightarrow> npfloat" where
  "np_sqrt (Fin a) = (if a < 0 then NaN else Fin (sqrt a))"
| "np_sqrt PosInf = PosInf"
| "np_sqrt NegInf = NaN"
| "np_sqrt NaN = NaN"

text \<open>\<^verbatim>\<open>v**2\<close>\<close>

definition np_square :: "npfloat \<Rightarrow> npfloat" where
  "np_square v = np_mul v v"

text \<open>\<^verbatim>\<open>np.sum\<close> and \<^verbatim>\<open>np.mean\<close> of a one-dimensional array; the mean of an empty array is 0/0.\<close>

definition np_sum :: "npfloat list \<Rightarrow> npfloat" where
  "np_sum a = foldl np_add (Fin 0) a"

definition np_mean :: "npfloat list \<Rightarrow> npfloat" where
  "np_mean a = np_div (np_sum a) (Fin (real (length a)))"

definition np_dot :: "npfloat list \<Rightarrow> npfloat list \<Rightarrow> npfloat" where
  "np_dot a b = np_sum (map (\<lambda>(u, v). np_mul u v) (zip a b))"

subsection \<open>Array shapes: the errors numpy raises\<close>

datatype py_error = ValueError | IndexError

text \<open>
  An elementwise operation on two one-dimensional arrays broadcasts them to a common
  length: equal lengths pair up index by index, an array of length 1 is repeated, and
  any other pair of lengths raises ValueError.
\<close>

definition broadcast2 :: "'a list \<Rightarrow> 'b list \<Rightarrow> py_error + ('a \<times> 'b) list" where
  "broadcast2 a b =
     (if length a = length b then Inr (zip a b)
      else if length a = 1 then Inr (map (\<lambda>v. (hd a, v)) b)
      else if length b = 1 then Inr (map (\<lambda>u. (u, hd b)) a)
      else Inl ValueError)"

text \<open>
  \<^verbatim>\<open>a[mask]\<close>: a boolean index of another length raises IndexError, unless it is empty.
  numpy compares the length of a boolean index with the array's only when that length is
  not zero; an empty boolean index selects nothing from an array of any length.
\<close>

definition bool_index :: "'a list \<Rightarrow> bool list \<Rightarrow> py_error + 'a list" where
  "bool_index a msk =
     (if msk \<noteq> [] \<and> length msk \<noteq> length a then Inl IndexError
      else Inr (map fst (filter snd (zip a msk))))"

text \<open>\<^verbatim>\<open>np.vstack([a, b])\<close>: the rows of a matrix must have one length.\<close>

definition np_vstack2 :: "'a list \<Rightarrow> 'a list \<Rightarrow> py_error + 'a list list" where
  "np_vstack2 a b = (if length a = length b then Inr [a, b] else Inl ValueError)"

text \<open>
  \<^verbatim>\<open>np.cov(m, ddof=d)\<close> for a matrix whose rows are the variables: each row is
  centred on its mean, the products of the centred rows are summed, and every sum is
  multiplied by \<open>1 / fact\<close>, where \<open>fact\<close> is the number of columns minus \<open>d\<close>, or 0
  when that is not positive.
\<close>

definition np_cov :: "int \<Rightarrow> npfloat list list \<Rightarrow> npfloat list list" where
  "np_cov ddof m =
     (let n = (case m of [] \<Rightarrow> 0 | r # _ \<Rightarrow> length r);
          fact = (if int n - ddof \<le> 0 then 0 else real_of_int (int n - ddof));
          X = map (\<lambda>r. map (\<lambda>v. np_sub v (np_mean r)) r) m;
          scale = np_div (Fin 1) (Fin fact)
      in map (\<lambda>ri. map (\<lambda>rj. np_mul (np_dot ri rj) scale) X) X)"

subsection \<open>The script's parameters\<close>

text \<open>
  \<^verbatim>\<open>pos_lim\<close> and \<^verbatim>\<open>angle_lim_mrad\<close> are module globals, which the two functions
  read when they are called. The model passes them as arguments.
\<close>

type_synonym limits = "real \<times> real"

definition pos_lim :: limits where
  "pos_lim = (-5, 5)"

definition angle_lim_mrad :: limits where
  "angle_lim_mrad = (-5, 5)"

subsection \<open>compute\_emittance\_and\_twiss\<close>

text \<open>Lines 38-40: the mask expression at one index, on the elements \<open>p\<close> of \<^verbatim>\<open>x\<close> and \<open>t\<close> of \<^verbatim>\<open>theta\<close>.\<close>

definition emittance_mask_at :: "limits \<Rightarrow> limits \<Rightarrow> npfloat \<times> npfloat \<Rightarrow> bool" where
  "emittance_mask_at plim alim pt =
     (case pt of (p, t) \<Rightarrow>
        np_isfinite p \<and> np_isfinite t \<and>
        np_ge p (fst plim) \<and> np_le p (snd plim) \<and>
        np_ge t (fst alim) \<and> np_le t (snd alim))"

text \<open>Lines 37-41: the mask, elementwise over the two arrays broadcast together.\<close>

definition emittance_mask ::
  "limits \<Rightarrow> limits \<Rightarrow> npfloat list \<Rightarrow> npfloat list \<Rightarrow> py_error + bool list" where
  "emittance_mask plim alim x theta =
     (case broadcast2 x theta of
        Inl e \<Rightarrow> Inl e
      | Inr pairs \<Rightarrow> Inr (map (emittance_mask_at plim alim) pairs))"

text \<open>Lines 37-43: both arrays indexed by the mask.\<close>

definition filtered_samples ::
  "limits \<Rightarrow> limits \<Rightarrow> npfloat list \<Rightarrow> npfloat list \<Rightarrow>
   py_error + (npfloat list \<times> npfloat list)" where
  "filtered_samples plim alim x theta =
     (case emittance_mask plim alim x theta of
        Inl e \<Rightarrow> Inl e
      | Inr msk \<Rightarrow>
          (case bool_index x msk of
             Inl e \<Rightarrow> Inl e
           | Inr x' \<Rightarrow>
               (case bool_index theta msk of
                  Inl e \<Rightarrow> Inl e
                | Inr theta' \<Rightarrow> Inr (x', theta'))))"

text \<open>Lines 46-48: the three entries read from the covariance matrix.\<close>

definition cov_terms ::
  "npfloat list \<Rightarrow> npfloat list \<Rightarrow> py_error + (npfloat \<times> npfloat \<times> npfloat)" where
  "cov_terms x theta =
     (case np_vstack2 x theta of
        Inl e \<Rightarrow> Inl e
      | Inr m \<Rightarrow>
          (let cov = np_cov 1 m
           in Inr (cov ! 0 ! 0, cov ! 0 ! 1, cov ! 1 ! 1)))"

text \<open>Line 49.\<close>

definition cov_det :: "npfloat \<times> npfloat \<times> npfloat \<Rightarrow> npfloat" where
  "cov_det c =
     (case c of (sig_x2, sig_xt, sig_t2) \<Rightarrow>
        np_sub (np_mul sig_x2 sig_t2) (np_square sig_xt))"

text \<open>Lines 49-54.\<close>

definition twiss_of_cov ::
  "npfloat \<times> npfloat \<times> npfloat \<Rightarrow> npfloat \<times> npfloat \<times> npfloat \<times> npfloat" where
  "twiss_of_cov c =
     (case c of (sig_x2, sig_xt, sig_t2) \<Rightarrow>
        (let det = cov_det c;
             eps = (if np_gt det 0 then np_sqrt det else NaN);
             alpha = (if np_gt eps 0 then np_div (np_neg sig_xt) eps else NaN);
             beta = (if np_gt eps 0 then np_div sig_x2 eps else NaN);
             gamma = (if np_gt eps 0 then np_div sig_t2 eps else NaN)
         in (eps, alpha, beta, gamma)))"

definition compute_emittance_and_twiss ::
  "limits \<Rightarrow> limits \<Rightarrow> npfloat list \<Rightarrow> npfloat list \<Rightarrow>
   py_error + (npfloat \<times> npfloat \<times> npfloat \<times> npfloat)" where
  "compute_emittance_and_twiss plim alim x theta =
     (case filtered_samples plim alim x theta of
        Inl e \<Rightarrow> Inl e
      | Inr (x', theta') \<Rightarrow>
          if length x' < 2 then Inr (NaN, NaN, NaN, NaN)
          else (case cov_terms x' theta' of
                  Inl e \<Rightarrow> Inl e
                | Inr c \<Rightarrow> Inr (twiss_of_cov c)))"

subsection \<open>compute\_rms\_size\<close>

text \<open>Lines 57-58.\<close>

definition rms_mask_at :: "limits \<Rightarrow> npfloat \<Rightarrow> bool" where
  "rms_mask_at plim p = (np_isfinite p \<and> np_ge p (fst plim) \<and> np_le p (snd plim))"

definition rms_mask :: "limits \<Rightarrow> npfloat list \<Rightarrow> bool list" where
  "rms_mask plim x = map (rms_mask_at plim) x"

definition rms_filtered :: "limits \<Rightarrow> npfloat list \<Rightarrow> py_error + npfloat list" where
  "rms_filtered plim x = bool_index x (rms_mask plim x)"

text \<open>Line 61, under the square root: \<^verbatim>\<open>np.mean((x-np.mean(x))**2)\<close>.\<close>

definition mean_square_dev :: "npfloat list \<Rightarrow> npfloat" where
  "mean_square_dev x = np_mean (map (\<lambda>v. np_square (np_sub v (np_mean x))) x)"

definition compute_rms_size :: "limits \<Rightarrow> npfloat list \<Rightarrow> py_error + npfloat" where
  "compute_rms_size plim x =
     (case rms_filtered plim x of
        Inl e \<Rightarrow> Inl e
      | Inr x' \<Rightarrow>
          if length x' = 0 then Inr NaN
          else Inr (np_sqrt (mean_square_dev x')))"

subsection \<open>float64 rounding\<close>

text \<open>
  The operations above are exact. IEEE 754 binary64 arithmetic rounds the exact result
  of every operation: to the nearest multiple of \<open>2\<^sup>e\<^sup>-\<^sup>5\<^sup>2\<close>, where \<open>2\<^sup>e \<le> \<bar>r\<bar> < 2\<^sup>e\<^sup>+\<^sup>1\<close> and
  \<open>e\<close> is not taken below \<open>-1022\<close>; to the even multiple when two are equally near; and
  to an infinity when the rounded value reaches \<open>2\<^sup>1\<^sup>0\<^sup>2\<^sup>4\<close>. numpy's \<^verbatim>\<open>np.sqrt\<close> and the four
  arithmetic operations are correctly rounded, so each is the exact operation followed
  by this rounding.
\<close>

definition pow2 :: "int \<Rightarrow> real" where
  "pow2 e = (if 0 \<le> e then 2 ^ nat e else 1 / 2 ^ nat (- e))"

definition round_half_even :: "real \<Rightarrow> int" where
  "round_half_even r =
     (let f = \<lfloor>r\<rfloor>; d = r - of_int f
      in if d < 1 / 2 then f else if 1 / 2 < d then f + 1 else if even f then f else f + 1)"

definition float64_exponent :: "real \<Rightarrow> int" where
  "float64_exponent r = max (- 1022) \<lfloor>log 2 \<bar>r\<bar>\<rfloor>"

definition round64 :: "real \<Rightarrow> npfloat" where
  "round64 r =
     (if r = 0 then Fin 0
      else let q = pow2 (float64_exponent r - 52);
               v = of_int (round_half_even (r / q)) * q
           in if pow2 1024 \<le> \<bar>v\<bar> then (if 0 < r then PosInf else NegInf) else Fin v)"

fun f64_round :: "npfloat \<Rightarrow> npfloat" where
  "f64_round (Fin r) = round64 r"
| "f64_round v = v"

text \<open>A value an array of float64 can hold: an infinity, NaN, or a real number that rounds to itself.\<close>

fun is_float64 :: "npfloat \<Rightarrow> bool" where
  "is_float64 (Fin r) = (round64 r = Fin r)"
| "is_float64 _ = True"

definition f64_add :: "npfloat \<Rightarrow> npfloat \<Rightarrow> npfloat" where
  "f64_add a b = f64_round (np_add a b)"

definition f64_sub :: "npfloat \<Rightarrow> npfloat \<Rightarrow> npfloat" where
  "f64_sub a b = f64_round (np_sub a b)"

definition f64_mul :: "npfloat \<Rightarrow> npfloat \<Rightarrow> npfloat" where
  "f64_mul a b = f64_round (np_mul a b)"

definition f64_div :: "npfloat \<Rightarrow> npfloat \<Rightarrow> npfloat" where
  "f64_div a b = f64_round (np_div a b)"

definition f64_sqrt :: "npfloat \<Rightarrow> npfloat" where
  "f64_sqrt a = f64_round (np_sqrt a)"

definition f64_square :: "npfloat \<Rightarrow> npfloat" where
  "f64_square v = f64_mul v v"

subsection \<open>The two functions in float64 arithmetic\<close>

text \<open>
  The same lines of the script, with every arithmetic operation rounded. The masks and
  the boolean indexing involve no arithmetic and are shared with the exact functions.
  A sum adds its terms from left to right, starting from 0, as numpy's summation does for
  fewer than eight terms; the order of a longer sum, and of the sums inside the matrix
  product of \<^verbatim>\<open>np.cov\<close>, is the library's choice. The number of elements, by which
  a mean divides, is a float64 for every array that fits in memory.
\<close>

definition np_sum_f64 :: "npfloat list \<Rightarrow> npfloat" where
  "np_sum_f64 a = foldl f64_add (Fin 0) a"

definition np_mean_f64 :: "npfloat list \<Rightarrow> npfloat" where
  "np_mean_f64 a = f64_div (np_sum_f64 a) (Fin (real (length a)))"







text \<open>Line 61, under the square root, and lines 56-61.\<close>

definition mean_square_dev_f64 :: "npfloat list \<Rightarrow> npfloat" where
  "mean_square_dev_f64 x = np_mean_f64 (map (\<lambda>v. f64_square (f64_sub v (np_mean_f64 x))) x)"

definition compute_rms_size_f64 :: "limits \<Rightarrow> npfloat list \<Rightarrow> py_error + npfloat" where
  "compute_rms_size_f64 plim x =
     (case rms_filtered plim x of
        Inl e \<Rightarrow> Inl e
      | Inr x' \<Rightarrow>
          if length x' = 0 then Inr NaN
          else Inr (f64_sqrt (mean_square_dev_f64 x')))"

subsection \<open>The estimators in the specification's words\<close>

text \<open>
  The specification names two estimators over the filtered samples: the sample
  covariance "using the unbiased estimator (divide by \<open>n - 1\<close>)", and "the population
  RMS about the mean: \<open>sqrt(mean((x - mean(x))\<^sup>2))\<close>" (divide by \<open>n\<close>). They are written
  here over real numbers, to be compared with what the code computes.
\<close>

definition spec_mean :: "real list \<Rightarrow> real" where
  "spec_mean xs = sum_list xs / real (length xs)"

definition spec_cov_unbiased :: "real list \<Rightarrow> real list \<Rightarrow> real" where
  "spec_cov_unbiased xs ys =
     (\<Sum>(a, b)\<leftarrow>zip xs ys. (a - spec_mean xs) * (b - spec_mean ys)) / (real (length xs) - 1)"

definition spec_rms_population :: "real list \<Rightarrow> real" where
  "spec_rms_population xs = sqrt (spec_mean (map (\<lambda>a. (a - spec_mean xs)\<^sup>2) xs))"

subsection \<open>The samples that pass the masks, as real numbers\<close>

text \<open>
  Both masks require \<^verbatim>\<open>np.isfinite\<close>, so every sample that passes is finite. The
  lemmas below describe the filtered arrays by the real numbers they hold.
\<close>

fun the_fin :: "npfloat \<Rightarrow> real" where
  "the_fin (Fin r) = r"
| "the_fin _ = 0"

definition kept_pairs :: "limits \<Rightarrow> limits \<Rightarrow> npfloat list \<Rightarrow> npfloat list \<Rightarrow> (real \<times> real) list" where
  "kept_pairs plim alim x theta =
     map (\<lambda>(p, t). (the_fin p, the_fin t)) (filter (emittance_mask_at plim alim) (zip x theta))"

definition kept_vals :: "limits \<Rightarrow> npfloat list \<Rightarrow> real list" where
  "kept_vals plim x = map the_fin (filter (rms_mask_at plim) x)"

section \<open>Arithmetic on arrays of finite values\<close>

lemma np_sum_aux: "foldl np_add (Fin a) (map Fin rs) = Fin (a + sum_list rs)"
  by (induction rs arbitrary: a) (simp_all add: add.assoc)

lemma np_sum_Fin: "np_sum (map Fin rs) = Fin (sum_list rs)"
  by (simp add: np_sum_def np_sum_aux)

lemma np_mean_Fin: "rs \<noteq> [] \<Longrightarrow> np_mean (map Fin rs) = Fin (spec_mean rs)"
  by (simp add: np_mean_def np_sum_Fin spec_mean_def)

lemma np_dot_Fin: "np_dot (map Fin as) (map Fin bs) = Fin (\<Sum>(a, b)\<leftarrow>zip as bs. a * b)"
proof -
  have "map (\<lambda>(u, v). np_mul u v) (zip (map Fin as) (map Fin bs)) =
        map Fin (map (\<lambda>(a, b). a * b) (zip as bs))"
    by (simp add: zip_map_map split_def)
  then show ?thesis by (simp only: np_dot_def np_sum_Fin)
qed

lemma centre_Fin:
  "rs \<noteq> [] \<Longrightarrow>
   map (\<lambda>v. np_sub v (np_mean (map Fin rs))) (map Fin rs) = map Fin (map (\<lambda>r. r - spec_mean rs) rs)"
  by (simp add: np_mean_Fin np_sub_def)

lemma dot_centred:
  "(\<Sum>(a, b)\<leftarrow>zip (map (\<lambda>r. r - c) ps) (map (\<lambda>r. r - d) qs). a * b) =
   (\<Sum>(a, b)\<leftarrow>zip ps qs. (a - c) * (b - d))"
  by (simp add: zip_map_map split_def o_def)

lemma np_cov_Fin:
  assumes "length ps = length qs" "2 \<le> length ps"
  shows "np_cov 1 [map Fin ps, map Fin qs] =
    [[Fin (spec_cov_unbiased ps ps), Fin (spec_cov_unbiased ps qs)],
     [Fin (spec_cov_unbiased qs ps), Fin (spec_cov_unbiased qs qs)]]"
proof -
  from assms have ne: "ps \<noteq> []" "qs \<noteq> []" by auto
  from assms have fact: "\<not> int (length ps) - 1 \<le> 0" by simp
  have n0: "real (length ps) - 1 \<noteq> 0" using assms by simp
  have cp: "map (\<lambda>v. np_sub v (np_mean (map Fin ps))) (map Fin ps) =
            map Fin (map (\<lambda>r. r - spec_mean ps) ps)"
    by (rule centre_Fin [OF ne(1)])
  have cq: "map (\<lambda>v. np_sub v (np_mean (map Fin qs))) (map Fin qs) =
            map Fin (map (\<lambda>r. r - spec_mean qs) qs)"
    by (rule centre_Fin [OF ne(2)])
  have sc: "np_div (Fin 1) (Fin (real (length ps) - 1)) = Fin (1 / (real (length ps) - 1))"
    using n0 by simp
  show ?thesis
    unfolding np_cov_def Let_def list.case list.map cp cq np_dot_Fin dot_centred
    using fact assms(1) by (simp add: sc spec_cov_unbiased_def)
qed

lemma cov_terms_Fin:
  assumes "length ps = length qs" "2 \<le> length ps"
  shows "cov_terms (map Fin ps) (map Fin qs) =
    Inr (Fin (spec_cov_unbiased ps ps), Fin (spec_cov_unbiased ps qs), Fin (spec_cov_unbiased qs qs))"
  using assms by (simp add: cov_terms_def np_vstack2_def np_cov_Fin)

lemma mean_square_dev_Fin:
  assumes ne: "rs \<noteq> []"
  shows "mean_square_dev (map Fin rs) = Fin (spec_mean (map (\<lambda>a. (a - spec_mean rs)\<^sup>2) rs))"
proof -
  have sq: "map (\<lambda>v. np_square (np_sub v (np_mean (map Fin rs)))) (map Fin rs)
      = map Fin (map (\<lambda>a. (a - spec_mean rs)\<^sup>2) rs)"
    by (simp add: np_mean_Fin ne np_sub_def np_square_def power2_eq_square)
  have "map (\<lambda>a. (a - spec_mean rs)\<^sup>2) rs \<noteq> []"
    using ne by simp
  from np_mean_Fin [OF this] sq show ?thesis
    by (simp only: mean_square_dev_def)
qed

section \<open>The filtered arrays\<close>

lemma bool_index_map: "bool_index a (map P a) = Inr (filter P a)"
proof -
  have "map fst (filter snd (zip a (map P a))) = filter P a"
    by (induction a) simp_all
  then show ?thesis by (simp add: bool_index_def)
qed

lemma bool_index_zip:
  assumes "length a = length b"
  shows "bool_index a (map P (zip a b)) = Inr (map fst (filter P (zip a b)))"
    and "bool_index b (map P (zip a b)) = Inr (map snd (filter P (zip a b)))"
proof -
  have "map fst (filter snd (zip a (map P (zip a b)))) = map fst (filter P (zip a b)) \<and>
        map fst (filter snd (zip b (map P (zip a b)))) = map snd (filter P (zip a b))"
    using assms by (induction a b rule: list_induct2) simp_all
  then show "bool_index a (map P (zip a b)) = Inr (map fst (filter P (zip a b)))"
    and "bool_index b (map P (zip a b)) = Inr (map snd (filter P (zip a b)))"
    using assms by (simp_all add: bool_index_def)
qed

lemma emittance_mask_eq:
  "length x = length theta \<Longrightarrow>
   emittance_mask plim alim x theta = Inr (map (emittance_mask_at plim alim) (zip x theta))"
  by (simp add: emittance_mask_def broadcast2_def)

lemma filtered_samples_eq:
  assumes "length x = length theta"
  shows "filtered_samples plim alim x theta =
         Inr (map fst (filter (emittance_mask_at plim alim) (zip x theta)),
              map snd (filter (emittance_mask_at plim alim) (zip x theta)))"
  using assms by (simp add: filtered_samples_def emittance_mask_eq bool_index_zip)

lemma mask_at_Fin:
  "emittance_mask_at plim alim (p, t) \<Longrightarrow> p = Fin (the_fin p) \<and> t = Fin (the_fin t)"
  by (cases p; cases t) (simp_all add: emittance_mask_at_def)

lemma rms_mask_at_Fin: "rms_mask_at plim p \<Longrightarrow> p = Fin (the_fin p)"
  by (cases p) (simp_all add: rms_mask_at_def)

lemma filtered_samples_kept:
  assumes "length x = length theta"
  shows "filtered_samples plim alim x theta =
         Inr (map Fin (map fst (kept_pairs plim alim x theta)),
              map Fin (map snd (kept_pairs plim alim x theta)))"
proof -
  let ?K = "filter (emittance_mask_at plim alim) (zip x theta)"
  have "\<forall>pt \<in> set ?K. fst pt = Fin (the_fin (fst pt)) \<and> snd pt = Fin (the_fin (snd pt))"
    by (auto dest: mask_at_Fin)
  then have "map fst ?K = map Fin (map fst (kept_pairs plim alim x theta))"
    and "map snd ?K = map Fin (map snd (kept_pairs plim alim x theta))"
    by (simp_all add: kept_pairs_def split_def)
  then show ?thesis
    by (simp only: filtered_samples_eq [OF assms])
qed

lemma rms_filtered_kept: "rms_filtered plim x = Inr (map Fin (kept_vals plim x))"
proof -
  have "\<forall>p \<in> set (filter (rms_mask_at plim) x). p = Fin (the_fin p)"
    by (auto dest: rms_mask_at_Fin)
  then have "map (\<lambda>p. Fin (the_fin p)) (filter (rms_mask_at plim) x) = filter (rms_mask_at plim) x"
    by (intro map_idI) simp
  then have "filter (rms_mask_at plim) x = map Fin (kept_vals plim x)"
    by (simp add: kept_vals_def o_def)
  then show ?thesis
    by (simp add: rms_filtered_def rms_mask_def bool_index_map)
qed

lemma twiss_of_cov_Fin:
  "twiss_of_cov (Fin spp, Fin spa, Fin saa) =
     (if 0 < spp * saa - spa\<^sup>2
      then (Fin (sqrt (spp * saa - spa\<^sup>2)),
            Fin (- spa / sqrt (spp * saa - spa\<^sup>2)),
            Fin (spp / sqrt (spp * saa - spa\<^sup>2)),
            Fin (saa / sqrt (spp * saa - spa\<^sup>2)))
      else (NaN, NaN, NaN, NaN))"
  by (simp add: twiss_of_cov_def cov_det_def np_sub_def np_square_def Let_def power2_eq_square)

section \<open>What the two functions return\<close>

text \<open>
  The two arrays have one length whenever both boolean indices succeed, except when the
  mask is empty: then both filtered arrays are empty.
\<close>

lemma filtered_samples_Inr_length:
  assumes "filtered_samples plim alim x theta = Inr (xs, ts)"
  shows "length x = length theta \<or> xs = [] \<and> ts = []"
proof -
  from assms obtain msk where m: "bool_index x msk = Inr xs" "bool_index theta msk = Inr ts"
    by (auto simp: filtered_samples_def split: sum.splits)
  show ?thesis
  proof (cases "msk = []")
    case True
    with m show ?thesis by (simp add: bool_index_def)
  next
    case False
    with m show ?thesis by (auto simp: bool_index_def split: if_splits)
  qed
qed

lemma filtered_samples_Fin:
  assumes "filtered_samples plim alim x theta = Inr (xs, ts)"
  shows "\<exists>ps qs. xs = map Fin ps \<and> ts = map Fin qs \<and> length ps = length qs"
proof (cases "length x = length theta")
  case len: True
  let ?K = "kept_pairs plim alim x theta"
  from filtered_samples_kept [OF len, of plim alim] assms
  have "xs = map Fin (map fst ?K)" "ts = map Fin (map snd ?K)" by simp_all
  moreover have "length (map fst ?K) = length (map snd ?K)" by simp
  ultimately show ?thesis by blast
next
  case False
  with filtered_samples_Inr_length [OF assms] have "xs = map Fin []" "ts = map Fin []"
    by simp_all
  then show ?thesis by blast
qed

lemma compute_Fin:
  assumes "filtered_samples plim alim x theta = Inr (map Fin ps, map Fin qs)"
  shows "compute_emittance_and_twiss plim alim x theta =
     Inr (if length ps < 2 then (NaN, NaN, NaN, NaN)
          else twiss_of_cov (Fin (spec_cov_unbiased ps ps), Fin (spec_cov_unbiased ps qs),
                             Fin (spec_cov_unbiased qs qs)))"
proof -
  from filtered_samples_Fin [OF assms] have len: "length ps = length qs"
    by (metis length_map)
  show ?thesis
  proof (cases "length ps < 2")
    case True
    then show ?thesis by (simp add: compute_emittance_and_twiss_def assms)
  next
    case False
    then have "2 \<le> length ps" by simp
    from cov_terms_Fin [OF len this] False show ?thesis
      by (simp add: compute_emittance_and_twiss_def assms)
  qed
qed

lemma mask_count:
  assumes "length x = length theta" "emittance_mask plim alim x theta = Inr msk"
    "filtered_samples plim alim x theta = Inr (xs, ts)"
  shows "length xs = length (filter id msk)"
proof -
  have cnt: "length (filter id (map P zs)) = length (filter P zs)" for P :: "'z \<Rightarrow> bool" and zs
    by (induction zs) simp_all
  from assms have "msk = map (emittance_mask_at plim alim) (zip x theta)"
    and "xs = map fst (filter (emittance_mask_at plim alim) (zip x theta))"
    by (simp_all add: emittance_mask_eq filtered_samples_eq)
  then show ?thesis
    by (simp add: cnt)
qed

section \<open>The claims\<close>

text \<open>
  C3. For every position/angle sample pair (two arrays of one length) for which fewer
  than 2 indices pass the filter mask, \<^verbatim>\<open>compute_emittance_and_twiss\<close> returns the
  undefined sentinel \<open>NaN\<close> for all four outputs: emittance, alpha, beta and gamma.
\<close>

theorem C3_fewer_than_two_undefined:
  assumes "length x = length theta"
    and "emittance_mask plim alim x theta = Inr msk"
    and "length (filter id msk) < 2"
  shows "compute_emittance_and_twiss plim alim x theta = Inr (NaN, NaN, NaN, NaN)"
proof -
  obtain xs ts where f: "filtered_samples plim alim x theta = Inr (xs, ts)"
    using filtered_samples_eq [OF assms(1)] by blast
  from mask_count [OF assms(1,2) f] assms(3) have "length xs < 2" by simp
  then show ?thesis
    by (simp add: compute_emittance_and_twiss_def f)
qed

theorem C3_fewer_than_two_undefined_witness:
  "length [Fin 0, NaN, Fin 7] = length [Fin 1, Fin 1, Fin 1] \<and>
   emittance_mask pos_lim angle_lim_mrad [Fin 0, NaN, Fin 7] [Fin 1, Fin 1, Fin 1] = Inr [True, False, False] \<and>
   length (filter id [True, False, False]) < 2 \<and>
   compute_emittance_and_twiss pos_lim angle_lim_mrad [Fin 0, NaN, Fin 7] [Fin 1, Fin 1, Fin 1] =
     Inr (NaN, NaN, NaN, NaN)"
proof -
  have m: "emittance_mask pos_lim angle_lim_mrad [Fin 0, NaN, Fin 7] [Fin 1, Fin 1, Fin 1] =
           Inr [True, False, False]"
    by (simp add: emittance_mask_def broadcast2_def emittance_mask_at_def pos_lim_def angle_lim_mrad_def)
  have c: "length (filter id [True, False, False]) < 2" by simp
  have l: "length [Fin 0, NaN, Fin 7] = length [Fin 1, Fin 1, Fin 1]" by simp
  from C3_fewer_than_two_undefined [OF l m c] m show ?thesis by simp
qed

text \<open>The definitions that evaluate the model on a concrete input.\<close>

lemmas model_defs = compute_emittance_and_twiss_def filtered_samples_def emittance_mask_def broadcast2_def
  bool_index_def cov_terms_def np_vstack2_def np_cov_def twiss_of_cov_def cov_det_def np_mean_def np_sum_def
  np_dot_def np_sub_def np_square_def compute_rms_size_def rms_filtered_def rms_mask_def mean_square_dev_def
  pos_lim_def angle_lim_mrad_def emittance_mask_at_def rms_mask_at_def

lemma rms_filtered_Fin:
  assumes "rms_filtered plim x = Inr xs"
  shows "\<exists>rs. xs = map Fin rs"
  using assms rms_filtered_kept [of plim x] by auto

lemma compute_rms_size_Fin:
  assumes "rms_filtered plim x = Inr (map Fin rs)"
  shows "compute_rms_size plim x =
         Inr (if rs = [] then NaN else Fin (spec_rms_population rs))"
proof (cases "rs = []")
  case True
  then show ?thesis by (simp add: compute_rms_size_def assms)
next
  case False
  have "0 \<le> spec_mean (map (\<lambda>a. (a - spec_mean rs)\<^sup>2) rs)"
    unfolding spec_mean_def [of "map f rs" for f]
    by (intro divide_nonneg_nonneg sum_list_nonneg) auto
  with False show ?thesis
    by (simp add: compute_rms_size_def assms mean_square_dev_Fin spec_rms_population_def)
qed

text \<open>
  C2. \<^verbatim>\<open>compute_emittance_and_twiss\<close> computes the covariance terms \<open>\<sigma>\<^sub>p\<^sub>p\<close>, \<open>\<sigma>\<^sub>p\<^sub>a\<close>,
  \<open>\<sigma>\<^sub>a\<^sub>a\<close> of the filtered samples with the unbiased estimator, which divides by
  \<open>n - 1\<close>, while \<^verbatim>\<open>compute_rms_size\<close> returns the population RMS about the mean,
  which divides by \<open>n\<close>. Both hold on every input on which the quantity is computed:
  at least two filtered samples for the covariance, at least one for the RMS.
\<close>

theorem C2_estimator_normalisation:
  "(filtered_samples plim alim x theta = Inr (xs, ts) \<and> 2 \<le> length xs \<longrightarrow>
      (\<exists>ps qs. xs = map Fin ps \<and> ts = map Fin qs \<and>
         cov_terms xs ts =
           Inr (Fin (spec_cov_unbiased ps ps), Fin (spec_cov_unbiased ps qs),
                Fin (spec_cov_unbiased qs qs)) \<and>
         compute_emittance_and_twiss plim alim x theta =
           Inr (twiss_of_cov (Fin (spec_cov_unbiased ps ps), Fin (spec_cov_unbiased ps qs),
                              Fin (spec_cov_unbiased qs qs))))) \<and>
   (rms_filtered plim y = Inr ys \<and> ys \<noteq> [] \<longrightarrow>
      (\<exists>rs. ys = map Fin rs \<and> compute_rms_size plim y = Inr (Fin (spec_rms_population rs))))"
proof (intro conjI impI)
  assume a: "filtered_samples plim alim x theta = Inr (xs, ts) \<and> 2 \<le> length xs"
  then obtain ps qs where fin: "xs = map Fin ps" "ts = map Fin qs" "length ps = length qs"
    using filtered_samples_Fin by blast
  from a fin have n: "2 \<le> length ps" by simp
  have c: "cov_terms xs ts =
      Inr (Fin (spec_cov_unbiased ps ps), Fin (spec_cov_unbiased ps qs), Fin (spec_cov_unbiased qs qs))"
    unfolding fin by (rule cov_terms_Fin [OF fin(3) n])
  from a fin have "filtered_samples plim alim x theta = Inr (map Fin ps, map Fin qs)" by simp
  from compute_Fin [OF this] n
  have "compute_emittance_and_twiss plim alim x theta =
      Inr (twiss_of_cov (Fin (spec_cov_unbiased ps ps), Fin (spec_cov_unbiased ps qs),
                         Fin (spec_cov_unbiased qs qs)))"
    by simp
  with fin c show "\<exists>ps qs. xs = map Fin ps \<and> ts = map Fin qs \<and>
         cov_terms xs ts =
           Inr (Fin (spec_cov_unbiased ps ps), Fin (spec_cov_unbiased ps qs),
                Fin (spec_cov_unbiased qs qs)) \<and>
         compute_emittance_and_twiss plim alim x theta =
           Inr (twiss_of_cov (Fin (spec_cov_unbiased ps ps), Fin (spec_cov_unbiased ps qs),
                              Fin (spec_cov_unbiased qs qs)))"
    by blast
next
  assume b: "rms_filtered plim y = Inr ys \<and> ys \<noteq> []"
  then obtain rs where rs: "ys = map Fin rs"
    using rms_filtered_Fin by blast
  with b have "rms_filtered plim y = Inr (map Fin rs)" "rs \<noteq> []" by auto
  from compute_rms_size_Fin [OF this(1)] this(2) rs
  show "\<exists>rs. ys = map Fin rs \<and> compute_rms_size plim y = Inr (Fin (spec_rms_population rs))"
    by auto
qed

theorem C2_estimator_normalisation_witness:
  "filtered_samples pos_lim angle_lim_mrad [Fin 0, Fin 2, Fin 9] [Fin 0, Fin 4, Fin 0] =
     Inr ([Fin 0, Fin 2], [Fin 0, Fin 4]) \<and>
   cov_terms [Fin 0, Fin 2] [Fin 0, Fin 4] = Inr (Fin 2, Fin 4, Fin 8) \<and>
   rms_filtered pos_lim [Fin 0, Fin 2, Fin 9] = Inr [Fin 0, Fin 2] \<and>
   compute_rms_size pos_lim [Fin 0, Fin 2, Fin 9] = Inr (Fin 1)"
proof -
  have f: "filtered_samples pos_lim angle_lim_mrad [Fin 0, Fin 2, Fin 9] [Fin 0, Fin 4, Fin 0] =
     Inr ([Fin 0, Fin 2], [Fin 0, Fin 4])"
    by (simp add: filtered_samples_def emittance_mask_def broadcast2_def bool_index_def
        emittance_mask_at_def pos_lim_def angle_lim_mrad_def)
  have g: "rms_filtered pos_lim [Fin 0, Fin 2, Fin 9] = Inr [Fin 0, Fin 2]"
    by (simp add: rms_filtered_def rms_mask_def rms_mask_at_def bool_index_def pos_lim_def)
  have n: "2 \<le> length [Fin 0, Fin 2]" "[Fin 0, Fin 2] \<noteq> []" by simp_all
  note inst = C2_estimator_normalisation [of pos_lim angle_lim_mrad "[Fin 0, Fin 2, Fin 9]"
      "[Fin 0, Fin 4, Fin 0]" "[Fin 0, Fin 2]" "[Fin 0, Fin 4]" "[Fin 0, Fin 2, Fin 9]" "[Fin 0, Fin 2]"]
  from inst have i1: "filtered_samples pos_lim angle_lim_mrad [Fin 0, Fin 2, Fin 9] [Fin 0, Fin 4, Fin 0] =
       Inr ([Fin 0, Fin 2], [Fin 0, Fin 4]) \<and> 2 \<le> length [Fin 0, Fin 2] \<longrightarrow>
     (\<exists>ps qs. [Fin 0, Fin 2] = map Fin ps \<and> [Fin 0, Fin 4] = map Fin qs \<and>
        cov_terms [Fin 0, Fin 2] [Fin 0, Fin 4] =
          Inr (Fin (spec_cov_unbiased ps ps), Fin (spec_cov_unbiased ps qs), Fin (spec_cov_unbiased qs qs)) \<and>
        compute_emittance_and_twiss pos_lim angle_lim_mrad [Fin 0, Fin 2, Fin 9] [Fin 0, Fin 4, Fin 0] =
          Inr (twiss_of_cov (Fin (spec_cov_unbiased ps ps), Fin (spec_cov_unbiased ps qs),
                             Fin (spec_cov_unbiased qs qs))))"
    by (rule conjunct1)
  from inst have i2: "rms_filtered pos_lim [Fin 0, Fin 2, Fin 9] = Inr [Fin 0, Fin 2] \<and>
      [Fin 0, Fin 2] \<noteq> [] \<longrightarrow>
      (\<exists>rs. [Fin 0, Fin 2] = map Fin rs \<and>
            compute_rms_size pos_lim [Fin 0, Fin 2, Fin 9] = Inr (Fin (spec_rms_population rs)))"
    by (rule conjunct2)
  from mp [OF i1 conjI [OF f n(1)]] obtain ps qs where
    pq: "[Fin 0, Fin 2] = map Fin ps" "[Fin 0, Fin 4] = map Fin qs"
    and c: "cov_terms [Fin 0, Fin 2] [Fin 0, Fin 4] =
      Inr (Fin (spec_cov_unbiased ps ps), Fin (spec_cov_unbiased ps qs), Fin (spec_cov_unbiased qs qs))"
    by (elim exE conjE)
  from pq have pq': "ps = [0, 2]" "qs = [0, 4]" by auto
  from mp [OF i2 conjI [OF g n(2)]] obtain rs where
    r: "[Fin 0, Fin 2] = map Fin rs"
    and m: "compute_rms_size pos_lim [Fin 0, Fin 2, Fin 9] = Inr (Fin (spec_rms_population rs))"
    by (elim exE conjE)
  from r have r': "rs = [0, 2]" by auto
  have "cov_terms [Fin 0, Fin 2] [Fin 0, Fin 4] = Inr (Fin 2, Fin 4, Fin 8)"
    using c unfolding pq' by (simp add: spec_cov_unbiased_def spec_mean_def)
  moreover have "compute_rms_size pos_lim [Fin 0, Fin 2, Fin 9] = Inr (Fin 1)"
    using m unfolding r' by (simp add: spec_rms_population_def spec_mean_def)
  ultimately show ?thesis using f g by (intro conjI)
qed

lemma spec_cov_unbiased_self_nonneg:
  assumes "2 \<le> length ps"
  shows "0 \<le> spec_cov_unbiased ps ps"
proof -
  have "(\<Sum>(a, b)\<leftarrow>zip ps ps. (a - spec_mean ps) * (b - spec_mean ps)) =
        (\<Sum>a\<leftarrow>ps. (a - spec_mean ps) * (a - spec_mean ps))"
    by (simp add: zip_same_conv_map o_def)
  moreover have "0 \<le> (\<Sum>a\<leftarrow>ps. (a - spec_mean ps) * (a - spec_mean ps))"
    by (intro sum_list_nonneg) auto
  moreover have "0 \<le> real (length ps) - 1" using assms by simp
  ultimately show ?thesis
    by (simp add: spec_cov_unbiased_def)
qed

lemma compute_cases:
  assumes "compute_emittance_and_twiss plim alim x theta = Inr (eps, alpha, beta, gamma)"
  obtains (undefined) "eps = NaN" "alpha = NaN" "beta = NaN" "gamma = NaN"
  | (defined) xs ts spp spa saa where
      "filtered_samples plim alim x theta = Inr (xs, ts)" "2 \<le> length xs"
      "cov_terms xs ts = Inr (Fin spp, Fin spa, Fin saa)"
      "0 < spp * saa - spa\<^sup>2" "0 \<le> spp" "0 \<le> saa"
      "eps = Fin (sqrt (spp * saa - spa\<^sup>2))"
      "alpha = Fin (- spa / sqrt (spp * saa - spa\<^sup>2))"
      "beta = Fin (spp / sqrt (spp * saa - spa\<^sup>2))"
      "gamma = Fin (saa / sqrt (spp * saa - spa\<^sup>2))"
proof -
  from assms obtain xs ts where f: "filtered_samples plim alim x theta = Inr (xs, ts)"
    by (auto simp: compute_emittance_and_twiss_def split: sum.splits)
  then obtain ps qs where fin: "xs = map Fin ps" "ts = map Fin qs" "length ps = length qs"
    using filtered_samples_Fin by blast
  let ?spp = "spec_cov_unbiased ps ps" and ?spa = "spec_cov_unbiased ps qs"
    and ?saa = "spec_cov_unbiased qs qs"
  let ?det = "?spp * ?saa - ?spa\<^sup>2"
  from f fin have "filtered_samples plim alim x theta = Inr (map Fin ps, map Fin qs)" by simp
  from compute_Fin [OF this] assms
  have r: "(eps, alpha, beta, gamma) =
      (if length ps < 2 then (NaN, NaN, NaN, NaN) else twiss_of_cov (Fin ?spp, Fin ?spa, Fin ?saa))"
    by simp
  show thesis
  proof (cases "2 \<le> length ps \<and> 0 < ?det")
    case True
    then have n: "2 \<le> length ps" "2 \<le> length qs" and d: "0 < ?det"
      using fin(3) by simp_all
    have c: "cov_terms xs ts = Inr (Fin ?spp, Fin ?spa, Fin ?saa)"
      unfolding fin by (rule cov_terms_Fin [OF fin(3) n(1)])
    from r n d have "eps = Fin (sqrt ?det)" "alpha = Fin (- ?spa / sqrt ?det)"
      "beta = Fin (?spp / sqrt ?det)" "gamma = Fin (?saa / sqrt ?det)"
      by (simp_all add: twiss_of_cov_Fin)
    with f n fin(1) c d spec_cov_unbiased_self_nonneg [OF n(1)] spec_cov_unbiased_self_nonneg [OF n(2)]
    show thesis by (intro defined [of xs ts ?spp ?spa ?saa]) simp_all
  next
    case False
    with r have "eps = NaN" "alpha = NaN" "beta = NaN" "gamma = NaN"
      by (auto simp: twiss_of_cov_Fin split: if_splits)
    then show thesis by (rule undefined)
  qed
qed

text \<open>
  C4. For every input on which \<^verbatim>\<open>compute_emittance_and_twiss\<close> returns a result tuple:
  if the emittance is the undefined sentinel \<open>NaN\<close> then alpha, beta and gamma are
  \<open>NaN\<close> too; and if the emittance is defined and positive then
  \<open>alpha = - \<sigma>\<^sub>p\<^sub>a / emittance\<close>, \<open>beta = \<sigma>\<^sub>p\<^sub>p / emittance\<close> and \<open>gamma = \<sigma>\<^sub>a\<^sub>a / emittance\<close>,
  for the covariance terms of the filtered samples.
\<close>

theorem C4_twiss_follow_emittance:
  assumes "compute_emittance_and_twiss plim alim x theta = Inr (eps, alpha, beta, gamma)"
  shows "(eps = NaN \<longrightarrow> alpha = NaN \<and> beta = NaN \<and> gamma = NaN) \<and>
         (\<forall>e. eps = Fin e \<and> 0 < e \<longrightarrow>
            (\<exists>xs ts sig_pp sig_pa sig_aa.
                filtered_samples plim alim x theta = Inr (xs, ts) \<and>
                cov_terms xs ts = Inr (Fin sig_pp, Fin sig_pa, Fin sig_aa) \<and>
                alpha = Fin (- sig_pa / e) \<and> beta = Fin (sig_pp / e) \<and> gamma = Fin (sig_aa / e)))"
  using assms
proof (cases rule: compute_cases)
  case undefined
  then show ?thesis by simp
next
  case (defined xs ts spp spa saa)
  then show ?thesis by auto
qed

lemma example_twiss:
  "compute_emittance_and_twiss pos_lim angle_lim_mrad
     [Fin 1, Fin (- 1), Fin 0, Fin 0] [Fin 0, Fin 0, Fin 2, Fin (- 2)] =
   Inr (Fin (4 / 3), Fin 0, Fin (1 / 2), Fin 2)"
  by (simp add: model_defs) (simp add: real_sqrt_divide)

theorem C4_twiss_follow_emittance_witness:
  "compute_emittance_and_twiss pos_lim angle_lim_mrad
     [Fin 1, Fin (- 1), Fin 0, Fin 0] [Fin 0, Fin 0, Fin 2, Fin (- 2)] =
   Inr (Fin (4 / 3), Fin 0, Fin (1 / 2), Fin 2) \<and>
   (\<exists>xs ts sig_pp sig_pa sig_aa.
      filtered_samples pos_lim angle_lim_mrad
        [Fin 1, Fin (- 1), Fin 0, Fin 0] [Fin 0, Fin 0, Fin 2, Fin (- 2)] = Inr (xs, ts) \<and>
      cov_terms xs ts = Inr (Fin sig_pp, Fin sig_pa, Fin sig_aa) \<and>
      Fin 0 = Fin (- sig_pa / (4 / 3)) \<and> Fin (1 / 2) = Fin (sig_pp / (4 / 3)) \<and>
      Fin 2 = Fin (sig_aa / (4 / 3)))"
proof -
  have "(0::real) < 4 / 3" by simp
  with C4_twiss_follow_emittance [OF example_twiss] example_twiss show ?thesis
    by blast
qed

text \<open>
  C9. Whenever an output is defined (not the sentinel \<open>NaN\<close>) it is a finite number
  with the sign the physics asks for: the emittance is strictly positive, beta and gamma
  are non-negative, and the result of \<^verbatim>\<open>compute_rms_size\<close> is non-negative.
\<close>

theorem C9_sign_invariants:
  "(compute_emittance_and_twiss plim alim x theta = Inr (eps, alpha, beta, gamma) \<longrightarrow>
      (eps \<noteq> NaN \<longrightarrow> (\<exists>e. eps = Fin e \<and> 0 < e)) \<and>
      (beta \<noteq> NaN \<longrightarrow> (\<exists>b. beta = Fin b \<and> 0 \<le> b)) \<and>
      (gamma \<noteq> NaN \<longrightarrow> (\<exists>g. gamma = Fin g \<and> 0 \<le> g))) \<and>
   (compute_rms_size plim y = Inr rms \<longrightarrow> rms \<noteq> NaN \<longrightarrow> (\<exists>r. rms = Fin r \<and> 0 \<le> r))"
proof (intro conjI impI)
  assume a: "compute_emittance_and_twiss plim alim x theta = Inr (eps, alpha, beta, gamma)"
  {
    assume "eps \<noteq> NaN"
    with a show "\<exists>e. eps = Fin e \<and> 0 < e"
      by (cases rule: compute_cases) simp_all
  }
  {
    assume "beta \<noteq> NaN"
    with a show "\<exists>b. beta = Fin b \<and> 0 \<le> b"
      by (cases rule: compute_cases) simp_all
  }
  {
    assume "gamma \<noteq> NaN"
    with a show "\<exists>g. gamma = Fin g \<and> 0 \<le> g"
      by (cases rule: compute_cases) simp_all
  }
next
  assume b: "compute_rms_size plim y = Inr rms" and d: "rms \<noteq> NaN"
  from rms_filtered_kept [of plim y] have "rms_filtered plim y = Inr (map Fin (kept_vals plim y))" .
  from compute_rms_size_Fin [OF this] b d
  have "rms = Fin (spec_rms_population (kept_vals plim y))"
    by (simp split: if_splits)
  moreover have "0 \<le> spec_rms_population (kept_vals plim y)"
    unfolding spec_rms_population_def spec_mean_def [of "map f rs" for f rs]
    by (intro real_sqrt_ge_zero divide_nonneg_nonneg sum_list_nonneg) auto
  ultimately show "\<exists>r. rms = Fin r \<and> 0 \<le> r" by blast
qed

lemma example_rms: "compute_rms_size pos_lim [Fin 0, Fin 2] = Inr (Fin 1)"
  by (simp add: model_defs)

theorem C9_sign_invariants_witness:
  "compute_emittance_and_twiss pos_lim angle_lim_mrad
     [Fin 1, Fin (- 1), Fin 0, Fin 0] [Fin 0, Fin 0, Fin 2, Fin (- 2)] =
   Inr (Fin (4 / 3), Fin 0, Fin (1 / 2), Fin 2) \<and>
   (\<exists>e. Fin (4 / 3) = Fin e \<and> 0 < e) \<and>
   (\<exists>b. Fin (1 / 2) = Fin b \<and> 0 \<le> b) \<and>
   (\<exists>g. Fin 2 = Fin g \<and> 0 \<le> g) \<and>
   compute_rms_size pos_lim [Fin 0, Fin 2] = Inr (Fin 1) \<and>
   (\<exists>r. Fin 1 = Fin r \<and> 0 \<le> r)"
  using C9_sign_invariants [of pos_lim angle_lim_mrad
      "[Fin 1, Fin (- 1), Fin 0, Fin 0]" "[Fin 0, Fin 0, Fin 2, Fin (- 2)]"
      "Fin (4 / 3)" "Fin 0" "Fin (1 / 2)" "Fin 2" "[Fin 0, Fin 2]" "Fin 1"]
    example_twiss example_rms
  by simp

lemma rms_mask_at_iff:
  "rms_mask_at plim p \<longleftrightarrow> (\<exists>r. p = Fin r \<and> fst plim \<le> r \<and> r \<le> snd plim)"
  by (cases p) (auto simp: rms_mask_at_def)

lemma emittance_mask_at_iff:
  "emittance_mask_at plim alim (p, t) \<longleftrightarrow>
     (\<exists>a b. p = Fin a \<and> t = Fin b \<and> fst plim \<le> a \<and> a \<le> snd plim \<and>
            fst alim \<le> b \<and> b \<le> snd alim)"
  by (cases p; cases t) (auto simp: emittance_mask_at_def)

text \<open>
  C7. For every position sequence whose filtered result (the finite values within the
  position limits) is empty, \<^verbatim>\<open>compute_rms_size\<close> returns the undefined sentinel \<open>NaN\<close>,
  and for no other input does it return the sentinel.
\<close>

theorem C7_sentinel_iff_empty:
  "(compute_rms_size plim x = Inr NaN \<longleftrightarrow> rms_filtered plim x = Inr []) \<and>
   (rms_filtered plim x = Inr [] \<longleftrightarrow>
      (\<forall>r. Fin r \<in> set x \<longrightarrow> \<not> (fst plim \<le> r \<and> r \<le> snd plim)))"
proof
  have k: "rms_filtered plim x = Inr (map Fin (kept_vals plim x))"
    by (rule rms_filtered_kept)
  from compute_rms_size_Fin [OF k] k
  show "compute_rms_size plim x = Inr NaN \<longleftrightarrow> rms_filtered plim x = Inr []"
    by simp
  have "rms_filtered plim x = Inr [] \<longleftrightarrow> filter (rms_mask_at plim) x = []"
    by (simp add: k kept_vals_def)
  also have "\<dots> \<longleftrightarrow> (\<forall>p \<in> set x. \<not> rms_mask_at plim p)"
    by (simp add: filter_empty_conv)
  also have "\<dots> \<longleftrightarrow> (\<forall>r. Fin r \<in> set x \<longrightarrow> \<not> (fst plim \<le> r \<and> r \<le> snd plim))"
    by (auto simp: rms_mask_at_iff)
  finally show "rms_filtered plim x = Inr [] \<longleftrightarrow>
      (\<forall>r. Fin r \<in> set x \<longrightarrow> \<not> (fst plim \<le> r \<and> r \<le> snd plim))" .
qed

theorem C7_sentinel_iff_empty_witness:
  "rms_filtered pos_lim [Fin 6, NaN, PosInf, NegInf] = Inr [] \<and>
   compute_rms_size pos_lim [Fin 6, NaN, PosInf, NegInf] = Inr NaN \<and>
   rms_filtered pos_lim [Fin 6, Fin 5] = Inr [Fin 5] \<and>
   compute_rms_size pos_lim [Fin 6, Fin 5] \<noteq> Inr NaN"
proof -
  have f: "rms_filtered pos_lim [Fin 6, NaN, PosInf, NegInf] = Inr []"
    by (simp add: rms_filtered_def rms_mask_def rms_mask_at_def bool_index_def pos_lim_def)
  have g: "rms_filtered pos_lim [Fin 6, Fin 5] = Inr [Fin 5]"
    by (simp add: rms_filtered_def rms_mask_def rms_mask_at_def bool_index_def pos_lim_def)
  from f C7_sentinel_iff_empty [of pos_lim "[Fin 6, NaN, PosInf, NegInf]"]
  have "compute_rms_size pos_lim [Fin 6, NaN, PosInf, NegInf] = Inr NaN" by blast
  moreover from g C7_sentinel_iff_empty [of pos_lim "[Fin 6, Fin 5]"]
  have "compute_rms_size pos_lim [Fin 6, Fin 5] \<noteq> Inr NaN" by simp
  ultimately show ?thesis using f g by (intro conjI)
qed

lemma bool_index_nths:
  assumes "length a = length m"
  shows "bool_index a m = Inr (nths a {i. i < length m \<and> m ! i})"
proof -
  have "map fst (filter snd (zip a m)) = nths a {i. i < length m \<and> m ! i}"
    using assms
  proof (induction a m rule: list_induct2)
    case Nil
    then show ?case by simp
  next
    case (Cons u a b m)
    have "{j. Suc j \<in> {i. i < length (b # m) \<and> (b # m) ! i}} = {i. i < length m \<and> m ! i}"
      by auto
    with Cons show ?case
      by (simp add: nths_Cons)
  qed
  with assms show ?thesis
    by (simp add: bool_index_def)
qed

text \<open>
  C6. The filter mask of \<^verbatim>\<open>compute_emittance_and_twiss\<close> selects exactly those indices
  \<open>i\<close> where \<open>position[i]\<close> and \<open>angle[i]\<close> are both finite (neither NaN nor infinite),
  \<open>position[i]\<close> lies within the closed interval of the position limits and \<open>angle[i]\<close>
  within the closed interval of the angle limits, both endpoints included. The two
  filtered arrays are the input arrays at the selected indices, in order. A value equal
  to a bound is kept; a value that is not finite is excluded whatever the bounds.
\<close>

theorem C6_mask_selects_finite_in_limits:
  assumes "length x = length theta"
  shows "\<exists>msk. emittance_mask plim alim x theta = Inr msk \<and> length msk = length x \<and>
     (\<forall>i<length x. msk ! i \<longleftrightarrow>
        (\<exists>p t. x ! i = Fin p \<and> theta ! i = Fin t \<and>
               fst plim \<le> p \<and> p \<le> snd plim \<and> fst alim \<le> t \<and> t \<le> snd alim)) \<and>
     filtered_samples plim alim x theta =
       Inr (nths x {i. i < length msk \<and> msk ! i}, nths theta {i. i < length msk \<and> msk ! i})"
proof -
  let ?msk = "map (emittance_mask_at plim alim) (zip x theta)"
  have m: "emittance_mask plim alim x theta = Inr ?msk"
    by (rule emittance_mask_eq [OF assms])
  have l: "length ?msk = length x" "length x = length ?msk" "length theta = length ?msk"
    using assms by simp_all
  have i: "\<forall>i<length x. ?msk ! i \<longleftrightarrow>
        (\<exists>p t. x ! i = Fin p \<and> theta ! i = Fin t \<and>
               fst plim \<le> p \<and> p \<le> snd plim \<and> fst alim \<le> t \<and> t \<le> snd alim)"
    using assms by (simp add: emittance_mask_at_iff)
  have "filtered_samples plim alim x theta =
       Inr (nths x {i. i < length ?msk \<and> ?msk ! i}, nths theta {i. i < length ?msk \<and> ?msk ! i})"
    unfolding filtered_samples_def m
    by (simp only: bool_index_nths [OF l(2)] bool_index_nths [OF l(3)] sum.case)
  with m l(1) i show ?thesis by blast
qed

theorem C6_mask_selects_finite_in_limits_witness:
  "emittance_mask pos_lim angle_lim_mrad
     [Fin (- 5), Fin 5, PosInf, NaN, Fin 0, Fin 6, Fin 1]
     [Fin 5, Fin (- 5), Fin 0, Fin 0, NegInf, Fin 0, Fin (- 6)] =
     Inr [True, True, False, False, False, False, False] \<and>
   filtered_samples pos_lim angle_lim_mrad
     [Fin (- 5), Fin 5, PosInf, NaN, Fin 0, Fin 6, Fin 1]
     [Fin 5, Fin (- 5), Fin 0, Fin 0, NegInf, Fin 0, Fin (- 6)] =
     Inr ([Fin (- 5), Fin 5], [Fin 5, Fin (- 5)])"
proof -
  let ?x = "[Fin (- 5), Fin 5, PosInf, NaN, Fin 0, Fin 6, Fin 1]"
  let ?t = "[Fin 5, Fin (- 5), Fin 0, Fin 0, NegInf, Fin 0, Fin (- 6)]"
  have e: "emittance_mask pos_lim angle_lim_mrad ?x ?t =
     Inr [True, True, False, False, False, False, False]"
    by (simp add: emittance_mask_def broadcast2_def emittance_mask_at_def pos_lim_def angle_lim_mrad_def)
  have "length ?x = length ?t" by simp
  from C6_mask_selects_finite_in_limits [OF this, of pos_lim angle_lim_mrad] e
  have "filtered_samples pos_lim angle_lim_mrad ?x ?t =
     Inr (nths ?x {i. i < length [True, True, False, False, False, False, False] \<and>
                      [True, True, False, False, False, False, False] ! i},
          nths ?t {i. i < length [True, True, False, False, False, False, False] \<and>
                      [True, True, False, False, False, False, False] ! i})"
    by auto
  then have "filtered_samples pos_lim angle_lim_mrad ?x ?t =
     Inr ([Fin (- 5), Fin 5], [Fin 5, Fin (- 5)])"
    by (simp add: nths_Cons)
  with e show ?thesis by (intro conjI)
qed

lemma compute_returns:
  assumes "length x = length theta"
  shows "\<exists>xs ts eps alpha beta gamma.
           filtered_samples plim alim x theta = Inr (xs, ts) \<and>
           compute_emittance_and_twiss plim alim x theta = Inr (eps, alpha, beta, gamma)"
proof -
  note f = filtered_samples_kept [OF assms, of plim alim]
  obtain r where "compute_emittance_and_twiss plim alim x theta = Inr r"
    using compute_Fin [OF f] by blast
  with f show ?thesis
    by (cases r) blast
qed

lemma cov_det_Fin: "cov_det (Fin spp, Fin spa, Fin saa) = Fin (spp * saa - spa\<^sup>2)"
  by (simp add: cov_det_def np_sub_def np_square_def power2_eq_square)

lemma mean_square_dev_nonneg:
  assumes "rs \<noteq> []"
  shows "\<exists>m. 0 \<le> m \<and> mean_square_dev (map Fin rs) = Fin m \<and>
             spec_rms_population rs = sqrt m"
proof -
  have "0 \<le> spec_mean (map (\<lambda>a. (a - spec_mean rs)\<^sup>2) rs)"
    unfolding spec_mean_def [of "map f rs" for f]
    by (intro divide_nonneg_nonneg sum_list_nonneg) auto
  with mean_square_dev_Fin [OF assms] show ?thesis
    by (simp add: spec_rms_population_def)
qed

text \<open>
  Outside the documented domain, on arrays of two different lengths, numpy raises,
  except for one array of length 1 beside an empty one: the broadcast mask is empty,
  selects nothing from either array, and the result is the all-undefined tuple.
\<close>

lemma compute_on_length_mismatch:
  assumes "length x \<noteq> length theta"
  shows "compute_emittance_and_twiss plim alim x theta =
     (if length x + length theta = 1 then Inr (NaN, NaN, NaN, NaN)
      else if length x = 1 \<or> length theta = 1 then Inl IndexError
      else Inl ValueError)"
  using assms
  by (auto simp: compute_emittance_and_twiss_def filtered_samples_def emittance_mask_def
      broadcast2_def bool_index_def)

text \<open>
  C8. Both functions are total over their documented domain and never raise: on every
  position/angle pair of one length \<^verbatim>\<open>compute_emittance_and_twiss\<close> returns a tuple, and
  on every position array \<^verbatim>\<open>compute_rms_size\<close> returns a value. A square root is taken
  only of a strictly positive finite determinant or of a non-negative finite mean of
  squares, a division by the emittance only when the emittance is strictly positive,
  and a degenerate case shows in the result as the sentinel \<open>NaN\<close> and in no other way:
  the outputs are either all \<open>NaN\<close> or all finite.
\<close>

theorem C8_total_and_guarded:
  "(length x = length theta \<longrightarrow>
      (\<exists>xs ts eps alpha beta gamma.
         filtered_samples plim alim x theta = Inr (xs, ts) \<and>
         compute_emittance_and_twiss plim alim x theta = Inr (eps, alpha, beta, gamma) \<and>
         (eps = NaN \<and> alpha = NaN \<and> beta = NaN \<and> gamma = NaN \<or>
          (\<exists>sig_pp sig_pa sig_aa det.
             cov_terms xs ts = Inr (Fin sig_pp, Fin sig_pa, Fin sig_aa) \<and>
             cov_det (Fin sig_pp, Fin sig_pa, Fin sig_aa) = Fin det \<and> 0 < det \<and>
             eps = Fin (sqrt det) \<and> 0 < sqrt det \<and>
             alpha = Fin (- sig_pa / sqrt det) \<and>
             beta = Fin (sig_pp / sqrt det) \<and>
             gamma = Fin (sig_aa / sqrt det))))) \<and>
   (\<exists>ys rms.
      rms_filtered plim y = Inr ys \<and> compute_rms_size plim y = Inr rms \<and>
      (ys = [] \<and> rms = NaN \<or>
       (\<exists>m. 0 \<le> m \<and> mean_square_dev ys = Fin m \<and> rms = Fin (sqrt m))))"
proof (intro conjI impI)
  assume len: "length x = length theta"
  from compute_returns [OF len, of plim alim] obtain xs ts eps alpha beta gamma where
    f: "filtered_samples plim alim x theta = Inr (xs, ts)" and
    c: "compute_emittance_and_twiss plim alim x theta = Inr (eps, alpha, beta, gamma)"
    by (elim exE conjE)
  from c have "eps = NaN \<and> alpha = NaN \<and> beta = NaN \<and> gamma = NaN \<or>
          (\<exists>sig_pp sig_pa sig_aa det.
             cov_terms xs ts = Inr (Fin sig_pp, Fin sig_pa, Fin sig_aa) \<and>
             cov_det (Fin sig_pp, Fin sig_pa, Fin sig_aa) = Fin det \<and> 0 < det \<and>
             eps = Fin (sqrt det) \<and> 0 < sqrt det \<and>
             alpha = Fin (- sig_pa / sqrt det) \<and>
             beta = Fin (sig_pp / sqrt det) \<and>
             gamma = Fin (sig_aa / sqrt det))"
  proof (cases rule: compute_cases)
    case undefined
    then show ?thesis by simp
  next
    case (defined xs' ts' spp spa saa)
    with f have "cov_terms xs ts = Inr (Fin spp, Fin spa, Fin saa)" by simp
    moreover note cov_det_Fin [of spp spa saa]
    moreover from defined(4) have "0 < sqrt (spp * saa - spa\<^sup>2)" by simp
    ultimately show ?thesis
      using defined(4,7-10) by blast
  qed
  with f c show "\<exists>xs ts eps alpha beta gamma.
         filtered_samples plim alim x theta = Inr (xs, ts) \<and>
         compute_emittance_and_twiss plim alim x theta = Inr (eps, alpha, beta, gamma) \<and>
         (eps = NaN \<and> alpha = NaN \<and> beta = NaN \<and> gamma = NaN \<or>
          (\<exists>sig_pp sig_pa sig_aa det.
             cov_terms xs ts = Inr (Fin sig_pp, Fin sig_pa, Fin sig_aa) \<and>
             cov_det (Fin sig_pp, Fin sig_pa, Fin sig_aa) = Fin det \<and> 0 < det \<and>
             eps = Fin (sqrt det) \<and> 0 < sqrt det \<and>
             alpha = Fin (- sig_pa / sqrt det) \<and>
             beta = Fin (sig_pp / sqrt det) \<and>
             gamma = Fin (sig_aa / sqrt det)))"
    by blast
next
  let ?rs = "kept_vals plim y"
  have k: "rms_filtered plim y = Inr (map Fin ?rs)"
    by (rule rms_filtered_kept)
  note r = compute_rms_size_Fin [OF k]
  show "\<exists>ys rms.
      rms_filtered plim y = Inr ys \<and> compute_rms_size plim y = Inr rms \<and>
      (ys = [] \<and> rms = NaN \<or>
       (\<exists>m. 0 \<le> m \<and> mean_square_dev ys = Fin m \<and> rms = Fin (sqrt m)))"
  proof (cases "?rs = []")
    case True
    with k r show ?thesis by simp
  next
    case False
    from mean_square_dev_nonneg [OF False] obtain m where
      "0 \<le> m" "mean_square_dev (map Fin ?rs) = Fin m" "spec_rms_population ?rs = sqrt m"
      by (elim exE conjE)
    with k r False show ?thesis by auto
  qed
qed

theorem C8_total_and_guarded_witness:
  "(\<exists>xs ts eps alpha beta gamma.
      filtered_samples pos_lim angle_lim_mrad [Fin 1, NaN, Fin 0] [Fin 0, Fin 2, PosInf] = Inr (xs, ts) \<and>
      compute_emittance_and_twiss pos_lim angle_lim_mrad [Fin 1, NaN, Fin 0] [Fin 0, Fin 2, PosInf] =
        Inr (eps, alpha, beta, gamma) \<and>
      (eps = NaN \<and> alpha = NaN \<and> beta = NaN \<and> gamma = NaN \<or>
       (\<exists>sig_pp sig_pa sig_aa det.
          cov_terms xs ts = Inr (Fin sig_pp, Fin sig_pa, Fin sig_aa) \<and>
          cov_det (Fin sig_pp, Fin sig_pa, Fin sig_aa) = Fin det \<and> 0 < det \<and>
          eps = Fin (sqrt det) \<and> 0 < sqrt det \<and>
          alpha = Fin (- sig_pa / sqrt det) \<and>
          beta = Fin (sig_pp / sqrt det) \<and>
          gamma = Fin (sig_aa / sqrt det)))) \<and>
   (\<exists>ys rms.
      rms_filtered pos_lim [Fin 0, PosInf, Fin 2] = Inr ys \<and>
      compute_rms_size pos_lim [Fin 0, PosInf, Fin 2] = Inr rms \<and>
      (ys = [] \<and> rms = NaN \<or>
       (\<exists>m. 0 \<le> m \<and> mean_square_dev ys = Fin m \<and> rms = Fin (sqrt m))))"
proof -
  note inst = C8_total_and_guarded [of "[Fin 1, NaN, Fin 0]" "[Fin 0, Fin 2, PosInf]"
      pos_lim angle_lim_mrad "[Fin 0, PosInf, Fin 2]"]
  have len: "length [Fin 1, NaN, Fin 0] = length [Fin 0, Fin 2, PosInf]" by simp
  show ?thesis
    by (rule conjI [OF mp [OF conjunct1 [OF inst] len] conjunct2 [OF inst]])
qed

text \<open>
  What both functions compute from the filtered samples is built from sums over them,
  and a sum does not depend on the order of its terms.
\<close>

lemma sum_list_mset_cong:
  fixes h :: "'a \<Rightarrow> real"
  assumes "mset K = mset K'"
  shows "sum_list (map h K) = sum_list (map h K')"
proof -
  have "sum_list (map h K) = sum_mset (image_mset h (mset K))"
    by (metis mset_map sum_mset_sum_list)
  also have "\<dots> = sum_mset (image_mset h (mset K'))"
    by (simp only: assms)
  also have "\<dots> = sum_list (map h K')"
    by (metis mset_map sum_mset_sum_list)
  finally show ?thesis .
qed

lemma spec_mean_mset_cong:
  assumes "mset K = mset K'"
  shows "spec_mean (map h K) = spec_mean (map h K')"
  using sum_list_mset_cong [OF assms, of h] mset_eq_length [OF assms]
  by (simp add: spec_mean_def)

lemma spec_cov_unbiased_map:
  "spec_cov_unbiased (map f K) (map g K) =
   (\<Sum>k\<leftarrow>K. (f k - spec_mean (map f K)) * (g k - spec_mean (map g K))) / (real (length K) - 1)"
  by (simp add: spec_cov_unbiased_def zip_map_map zip_same_conv_map o_def split_def)

lemma spec_cov_unbiased_mset_cong:
  assumes "mset K = mset K'"
  shows "spec_cov_unbiased (map f K) (map g K) = spec_cov_unbiased (map f K') (map g K')"
  unfolding spec_cov_unbiased_map
  using sum_list_mset_cong [OF assms] spec_mean_mset_cong [OF assms] mset_eq_length [OF assms]
  by simp

lemma spec_rms_population_mset_cong:
  assumes "mset rs = mset rs'"
  shows "spec_rms_population rs = spec_rms_population rs'"
proof -
  have m: "spec_mean rs = spec_mean rs'"
    using spec_mean_mset_cong [OF assms, of "\<lambda>a. a"] by simp
  show ?thesis
    unfolding spec_rms_population_def m
    by (simp only: spec_mean_mset_cong [OF assms])
qed

lemma mset_map_nth:
  assumes "mset idx = mset [0..<length xs]"
  shows "mset (map ((!) xs) idx) = mset xs"
proof -
  have "mset (map ((!) xs) idx) = image_mset ((!) xs) (mset idx)" by simp
  also have "\<dots> = image_mset ((!) xs) (mset [0..<length xs])" by (simp only: assms)
  also have "\<dots> = mset (map ((!) xs) [0..<length xs])" by simp
  also have "\<dots> = mset xs" by (simp only: map_nth)
  finally show ?thesis .
qed

lemma zip_map_nth:
  assumes "length x = length theta" "mset idx = mset [0..<length x]"
  shows "zip (map ((!) x) idx) (map ((!) theta) idx) = map ((!) (zip x theta)) idx"
proof -
  from assms(2) have "set idx = set [0..<length x]" by (rule mset_eq_setD)
  then have "\<forall>i \<in> set idx. i < length x" by simp
  with assms(1) show ?thesis
    by (simp add: zip_map_map zip_same_conv_map o_def)
qed

lemma kept_pairs_perm:
  assumes "length x = length theta" "mset idx = mset [0..<length x]"
  shows "mset (kept_pairs plim alim (map ((!) x) idx) (map ((!) theta) idx)) =
         mset (kept_pairs plim alim x theta)"
proof -
  from assms have "mset idx = mset [0..<length (zip x theta)]" by simp
  from mset_map_nth [OF this] zip_map_nth [OF assms]
  have "mset (zip (map ((!) x) idx) (map ((!) theta) idx)) = mset (zip x theta)" by simp
  then show ?thesis
    by (simp add: kept_pairs_def)
qed

lemma kept_vals_perm:
  assumes "mset idx = mset [0..<length y]"
  shows "mset (kept_vals plim (map ((!) y) idx)) = mset (kept_vals plim y)"
  using mset_map_nth [OF assms] by (simp add: kept_vals_def)

text \<open>
  C10. Both functions are invariant under a permutation of the samples, in exact real
  arithmetic. A permutation of \<open>n\<close> samples is given by the list \<open>idx\<close> of the indices
  \<open>0, \<dots>, n - 1\<close> in their new order; the permuted array holds \<open>x[idx[k]]\<close> at position
  \<open>k\<close>. Applying one permutation to the position and the angle array leaves all four
  outputs of \<^verbatim>\<open>compute_emittance_and_twiss\<close> unchanged, and applying a permutation to
  the position array leaves the output of \<^verbatim>\<open>compute_rms_size\<close> unchanged.
\<close>

theorem C10_permutation_invariance:
  "(length x = length theta \<and> mset idx = mset [0..<length x] \<longrightarrow>
      compute_emittance_and_twiss plim alim (map ((!) x) idx) (map ((!) theta) idx) =
      compute_emittance_and_twiss plim alim x theta) \<and>
   (mset idy = mset [0..<length y] \<longrightarrow>
      compute_rms_size plim (map ((!) y) idy) = compute_rms_size plim y)"
proof (intro conjI impI)
  assume a: "length x = length theta \<and> mset idx = mset [0..<length x]"
  then have len: "length x = length theta" and p: "mset idx = mset [0..<length x]" by simp_all
  let ?x' = "map ((!) x) idx" and ?t' = "map ((!) theta) idx"
  let ?K = "kept_pairs plim alim x theta" and ?K' = "kept_pairs plim alim ?x' ?t'"
  have len': "length ?x' = length ?t'" by simp
  have k: "mset ?K' = mset ?K" by (rule kept_pairs_perm [OF len p])
  have n: "length ?K' = length ?K" by (rule mset_eq_length [OF k])
  note c = compute_Fin [OF filtered_samples_kept [OF len, of plim alim]]
  note c' = compute_Fin [OF filtered_samples_kept [OF len', of plim alim]]
  show "compute_emittance_and_twiss plim alim ?x' ?t' = compute_emittance_and_twiss plim alim x theta"
    unfolding c c' length_map n
    by (simp only: spec_cov_unbiased_mset_cong [OF k])
next
  assume p: "mset idy = mset [0..<length y]"
  let ?y' = "map ((!) y) idy"
  have k: "mset (kept_vals plim ?y') = mset (kept_vals plim y)" by (rule kept_vals_perm [OF p])
  have e: "kept_vals plim ?y' = [] \<longleftrightarrow> kept_vals plim y = []"
    using k by (metis mset_zero_iff)
  note c = compute_rms_size_Fin [OF rms_filtered_kept [of plim y]]
  note c' = compute_rms_size_Fin [OF rms_filtered_kept [of plim ?y']]
  show "compute_rms_size plim ?y' = compute_rms_size plim y"
    unfolding c c' e
    by (simp only: spec_rms_population_mset_cong [OF k])
qed

theorem C10_permutation_invariance_witness:
  "compute_emittance_and_twiss pos_lim angle_lim_mrad
     [Fin 0, Fin 1, Fin 0, Fin (- 1)] [Fin 2, Fin 0, Fin (- 2), Fin 0] =
   compute_emittance_and_twiss pos_lim angle_lim_mrad
     [Fin 1, Fin (- 1), Fin 0, Fin 0] [Fin 0, Fin 0, Fin 2, Fin (- 2)] \<and>
   compute_rms_size pos_lim [Fin 2, NaN, Fin 0] = compute_rms_size pos_lim [Fin 0, Fin 2, NaN]"
proof -
  let ?x = "[Fin 1, Fin (- 1), Fin 0, Fin 0]" and ?t = "[Fin 0, Fin 0, Fin 2, Fin (- 2)]"
  let ?y = "[Fin 0, Fin 2, NaN]"
  note inst = C10_permutation_invariance [of ?x ?t "[2, 0, 3, 1]" pos_lim angle_lim_mrad "[1, 2, 0]" ?y]
  have h1: "length ?x = length ?t \<and> mset [2, 0, 3, 1] = mset [0..<length ?x]"
    by (simp add: upt_rec numeral_2_eq_2 numeral_3_eq_3)
  have h2: "mset [1, 2, 0] = mset [0..<length ?y]"
    by (simp add: upt_rec numeral_2_eq_2)
  have m1: "map ((!) ?x) [2, 0, 3, 1] = [Fin 0, Fin 1, Fin 0, Fin (- 1)]"
    "map ((!) ?t) [2, 0, 3, 1] = [Fin 2, Fin 0, Fin (- 2), Fin 0]"
    "map ((!) ?y) [1, 2, 0] = [Fin 2, NaN, Fin 0]"
    by simp_all
  from mp [OF conjunct1 [OF inst] h1] mp [OF conjunct2 [OF inst] h2]
  show ?thesis
    unfolding m1 by (rule conjI)
qed

section \<open>Where float64 rounding decides\<close>

text \<open>
  Two claims assert that a computed number is exactly zero. Rounding decides that, so
  they are settled on the functions in float64 arithmetic. The rounding of each number
  met on the way is evaluated from its binade.
\<close>

lemma pow2_powr: "pow2 e = 2 powr (of_int e)"
  by (simp add: pow2_def powr_int)

lemma pow2_pos: "0 < pow2 e"
  by (simp add: pow2_powr)

lemma pow2_add: "pow2 (a + b) = pow2 a * pow2 b"
  by (simp add: pow2_powr powr_add)

lemma pow2_strict_mono: "a < b \<Longrightarrow> pow2 a < pow2 b"
  by (simp add: pow2_powr)

lemma floor_log2:
  assumes "pow2 e \<le> \<bar>r\<bar>" "\<bar>r\<bar> < pow2 (e + 1)"
  shows "\<lfloor>log 2 \<bar>r\<bar>\<rfloor> = e"
proof -
  have pos: "0 < \<bar>r\<bar>" using assms(1) pow2_pos [of e] by linarith
  have "of_int e \<le> log 2 \<bar>r\<bar>"
    using assms(1) pos by (simp add: le_log_iff pow2_powr)
  moreover have "log 2 \<bar>r\<bar> < of_int e + 1"
    using assms(2) pos by (simp add: log_less_iff pow2_powr)
  ultimately show ?thesis by (simp add: floor_eq_iff)
qed

lemma round_half_even_abs:
  assumes "\<bar>z\<bar> \<le> of_int n"
  shows "\<bar>round_half_even z\<bar> \<le> n"
proof -
  let ?f = "\<lfloor>z\<rfloor>"
  from assms have z: "- of_int n \<le> z" "z \<le> of_int n" by linarith+
  have lo: "- n \<le> ?f"
    using z(1) by (simp add: le_floor_iff)
  have le: "?f \<le> n"
    using z(2) by (simp add: floor_le_iff)
  have up: "?f + 1 \<le> n" if "1 / 2 \<le> z - of_int ?f"
  proof -
    from that have "of_int ?f < z" by linarith
    with z(2) have "(of_int ?f :: real) < of_int n" by linarith
    then show ?thesis by simp
  qed
  show ?thesis
    using lo le up by (auto simp: round_half_even_def Let_def not_less)
qed

text \<open>
  The rounding of a number whose binade \<open>2\<^sup>e \<le> \<bar>r\<bar> < 2\<^sup>e\<^sup>+\<^sup>1\<close> is known, in the normal range:
  this is how the rounding of a given number is evaluated.
\<close>

lemma round64_eval:
  assumes "pow2 e \<le> \<bar>r\<bar>" "\<bar>r\<bar> < pow2 (e + 1)" "- 1022 \<le> e" "e \<le> 1022"
  shows "round64 r = Fin (of_int (round_half_even (r / pow2 (e - 52))) * pow2 (e - 52))"
proof -
  let ?q = "pow2 (e - 52)"
  let ?m = "round_half_even (r / ?q)"
  have nz: "r \<noteq> 0" using assms(1) pow2_pos [of e] by auto
  have ex: "float64_exponent r = e"
    using floor_log2 [OF assms(1,2)] assms(3) by (simp add: float64_exponent_def)
  have "e + 1 = 53 + (e - 52)" by simp
  then have split: "pow2 (e + 1) = pow2 53 * ?q"
    by (simp only: pow2_add)
  with assms(2) have "\<bar>r\<bar> / ?q \<le> pow2 53"
    using pow2_pos [of "e - 52"] by (simp add: field_simps)
  then have "\<bar>r / ?q\<bar> \<le> of_int (2 ^ 53)"
    using pow2_pos [of "e - 52"] by (simp add: pow2_def)
  from round_half_even_abs [OF this] have "\<bar>?m\<bar> \<le> 2 ^ 53" .
  then have "\<bar>of_int ?m\<bar> \<le> (2 ^ 53 :: real)"
    by (metis of_int_abs of_int_le_iff of_int_numeral of_int_power)
  then have "\<bar>of_int ?m * ?q\<bar> \<le> pow2 53 * ?q"
    using pow2_pos [of "e - 52"] by (simp add: abs_mult pow2_def)
  also have "\<dots> = pow2 (e + 1)"
    by (simp only: split)
  also have "\<dots> < pow2 1024"
    using assms(4) by (intro pow2_strict_mono) simp
  finally have "\<not> pow2 1024 \<le> \<bar>of_int ?m * ?q\<bar>" by simp
  then show ?thesis
    using nz by (simp add: round64_def ex Let_def)
qed

lemma round64_0: "round64 0 = Fin 0"
  by (simp add: round64_def)

subsection \<open>The RMS of identical values\<close>

lemma r64_tenth_1: "round64 (3602879701896397 / 36028797018963968) = Fin (3602879701896397 / 36028797018963968)"
  using round64_eval [of "- 4" "3602879701896397 / 36028797018963968"]
  by (simp add: pow2_def round_half_even_def)

lemma r64_tenth_2: "round64 (3602879701896397 / 18014398509481984) = Fin (3602879701896397 / 18014398509481984)"
  using round64_eval [of "- 3" "3602879701896397 / 18014398509481984"]
  by (simp add: pow2_def round_half_even_def)

lemma r64_tenth_3: "round64 (10808639105689191 / 36028797018963968) = Fin (1351079888211149 / 4503599627370496)"
  using round64_eval [of "- 2" "10808639105689191 / 36028797018963968"]
  by (simp add: pow2_def round_half_even_def)

lemma r64_tenth_4: "round64 (1351079888211149 / 13510798882111488) = Fin (7205759403792795 / 72057594037927936)"
  using round64_eval [of "- 4" "1351079888211149 / 13510798882111488"]
  by (simp add: pow2_def round_half_even_def)

lemma r64_tenth_5: "round64 (- (1 / 72057594037927936)) = Fin (- (1 / 72057594037927936))"
  using round64_eval [of "- 56" "- (1 / 72057594037927936)"]
  by (simp add: pow2_def round_half_even_def)

lemma r64_tenth_6: "round64 (1 / 5192296858534827628530496329220096) = Fin (1 / 5192296858534827628530496329220096)"
  using round64_eval [of "- 112" "1 / 5192296858534827628530496329220096"]
  by (simp add: pow2_def round_half_even_def)

lemma r64_tenth_7: "round64 (1 / 2596148429267413814265248164610048) = Fin (1 / 2596148429267413814265248164610048)"
  using round64_eval [of "- 111" "1 / 2596148429267413814265248164610048"]
  by (simp add: pow2_def round_half_even_def)

lemma r64_tenth_8: "round64 (3 / 5192296858534827628530496329220096) = Fin (3 / 5192296858534827628530496329220096)"
  using round64_eval [of "- 111" "3 / 5192296858534827628530496329220096"]
  by (simp add: pow2_def round_half_even_def)

lemma r64_tenth_9: "round64 (1 / 72057594037927936) = Fin (1 / 72057594037927936)"
  using round64_eval [of "- 56" "1 / 72057594037927936"]
  by (simp add: pow2_def round_half_even_def)

lemmas r64_tenth = r64_tenth_1 r64_tenth_2 r64_tenth_3 r64_tenth_4 r64_tenth_5 r64_tenth_6 r64_tenth_7 r64_tenth_8 r64_tenth_9

lemma r64_small_1: "round64 3 = Fin 3"
  using round64_eval [of "1" "3"]
  by (simp add: pow2_def round_half_even_def)

lemma r64_small_2: "round64 8 = Fin 8"
  using round64_eval [of "3" "8"]
  by (simp add: pow2_def round_half_even_def)

lemmas r64_small = r64_small_1 r64_small_2

lemma sqrt_pow2_112: "sqrt (1 / 5192296858534827628530496329220096) = 1 / 72057594037927936"
  by (rule real_sqrt_unique) (simp_all add: power2_eq_square)

text \<open>
  C5, as stated: for every position sequence in which all values are identical,
  \<^verbatim>\<open>compute_rms_size\<close> returns 0. It fails in two ways. Three samples at 6 mm lie
  outside \<^verbatim>\<open>pos_lim = (-5, 5)\<close>: the mask of line 57 rejects them all and line 60
  returns \<open>NaN\<close>. Three samples at 0.1 (the float64 nearest to it) pass the mask, but
  their sum is rounded, \<^verbatim>\<open>np.mean\<close> returns 0.10000000000000002, each deviation is
  \<open>- 2\<^sup>-\<^sup>5\<^sup>6\<close>, and line 61 returns \<open>2\<^sup>-\<^sup>5\<^sup>6\<close>, about 1.39e-17, not 0.
\<close>

theorem C5_identical_values_counterexample:
  "compute_rms_size_f64 pos_lim [Fin 6, Fin 6, Fin 6] = Inr NaN \<and>
   is_float64 (Fin (3602879701896397 / 36028797018963968)) \<and>
   compute_rms_size_f64 pos_lim
     [Fin (3602879701896397 / 36028797018963968), Fin (3602879701896397 / 36028797018963968),
      Fin (3602879701896397 / 36028797018963968)] = Inr (Fin (1 / 72057594037927936))"
proof (intro conjI)
  show "compute_rms_size_f64 pos_lim [Fin 6, Fin 6, Fin 6] = Inr NaN"
    by (simp add: compute_rms_size_f64_def rms_filtered_def rms_mask_def rms_mask_at_def
        bool_index_def pos_lim_def)
  show "is_float64 (Fin (3602879701896397 / 36028797018963968))"
    by (simp add: r64_tenth)
  have f: "rms_filtered pos_lim
     [Fin (3602879701896397 / 36028797018963968), Fin (3602879701896397 / 36028797018963968),
      Fin (3602879701896397 / 36028797018963968)] =
     Inr [Fin (3602879701896397 / 36028797018963968), Fin (3602879701896397 / 36028797018963968),
      Fin (3602879701896397 / 36028797018963968)]"
    by (simp add: rms_filtered_def rms_mask_def rms_mask_at_def bool_index_def pos_lim_def)
  have m: "np_mean_f64
     [Fin (3602879701896397 / 36028797018963968), Fin (3602879701896397 / 36028797018963968),
      Fin (3602879701896397 / 36028797018963968)] = Fin (7205759403792795 / 72057594037927936)"
    by (simp add: np_mean_f64_def np_sum_f64_def f64_add_def f64_div_def r64_tenth round64_0)
  have d: "mean_square_dev_f64
     [Fin (3602879701896397 / 36028797018963968), Fin (3602879701896397 / 36028797018963968),
      Fin (3602879701896397 / 36028797018963968)] = Fin (1 / 5192296858534827628530496329220096)"
    unfolding mean_square_dev_f64_def m
    by (simp add: np_mean_f64_def np_sum_f64_def f64_add_def f64_sub_def np_sub_def f64_mul_def
        f64_div_def f64_square_def r64_tenth round64_0)
  show "compute_rms_size_f64 pos_lim
     [Fin (3602879701896397 / 36028797018963968), Fin (3602879701896397 / 36028797018963968),
      Fin (3602879701896397 / 36028797018963968)] = Inr (Fin (1 / 72057594037927936))"
    unfolding compute_rms_size_f64_def f
    by (simp add: d f64_sqrt_def sqrt_pow2_112 r64_tenth)
qed

lemma r64_even_1: "round64 2 = Fin 2"
  using round64_eval [of "1" "2"]
  by (simp add: pow2_def round_half_even_def)

lemma r64_even_2: "round64 4 = Fin 4"
  using round64_eval [of "2" "4"]
  by (simp add: pow2_def round_half_even_def)

lemma r64_even_3: "round64 6 = Fin 6"
  using round64_eval [of "2" "6"]
  by (simp add: pow2_def round_half_even_def)

lemma r64_even_4: "round64 8 = Fin 8"
  using round64_eval [of "3" "8"]
  by (simp add: pow2_def round_half_even_def)

lemmas r64_even = r64_even_1 r64_even_2 r64_even_3 r64_even_4

lemma np_sum_f64_zeros: "np_sum_f64 (replicate n (Fin 0)) = Fin 0"
proof -
  have "foldl f64_add (Fin 0) (replicate n (Fin 0)) = Fin 0"
    by (induction n) (simp_all add: f64_add_def round64_0)
  then show ?thesis by (simp add: np_sum_f64_def)
qed

lemma compute_rms_size_f64_exact_mean:
  assumes f: "rms_filtered plim x = Inr xs" and ne: "xs \<noteq> []"
    and same: "\<forall>u \<in> set xs. u = Fin v" and m: "np_mean_f64 xs = Fin v"
  shows "compute_rms_size_f64 plim x = Inr (Fin 0)"
proof -
  have z: "f64_square (f64_sub (Fin v) (Fin v)) = Fin 0"
    by (simp add: f64_square_def f64_sub_def f64_mul_def np_sub_def round64_0)
  have "\<forall>u \<in> set xs. f64_square (f64_sub u (Fin v)) = Fin 0"
  proof
    fix u assume "u \<in> set xs"
    with same have "u = Fin v" by blast
    then show "f64_square (f64_sub u (Fin v)) = Fin 0" by (simp only: z)
  qed
  then have "map (\<lambda>u. f64_square (f64_sub u (Fin v))) xs = map (\<lambda>u. Fin 0) xs"
    by (simp only: map_eq_conv)
  then have sq: "map (\<lambda>u. f64_square (f64_sub u (Fin v))) xs = replicate (length xs) (Fin 0)"
    by (simp add: map_replicate_const)
  have "mean_square_dev_f64 xs = f64_div (Fin 0) (Fin (real (length xs)))"
    unfolding mean_square_dev_f64_def m sq
    by (simp add: np_mean_f64_def np_sum_f64_zeros)
  also have "\<dots> = Fin 0"
    using ne by (simp add: f64_div_def round64_0)
  finally have "mean_square_dev_f64 xs = Fin 0" .
  with f ne show ?thesis
    by (simp add: compute_rms_size_f64_def f64_sqrt_def round64_0)
qed

lemma np_mean_f64_single: "round64 v = Fin v \<Longrightarrow> np_mean_f64 [Fin v] = Fin v"
  by (simp add: np_mean_f64_def np_sum_f64_def f64_add_def f64_div_def)

text \<open>
  C5, amended. For every position sequence whose values that pass the filter (finite and
  within the position limits) are at least one and all identical, and whose float64 mean
  \<^verbatim>\<open>np.mean\<close> is exactly that value, \<^verbatim>\<open>compute_rms_size\<close> returns 0. A single float64
  value passing the filter always meets this: its mean is the value itself. In particular
  position = [-1, 0, 1] with limits [-0.5, 0.5] keeps the single value 0 and returns 0.
\<close>

theorem C5_identical_values_rms_zero_f64:
  "(rms_filtered plim x = Inr xs \<and> xs \<noteq> [] \<and> (\<forall>u \<in> set xs. u = Fin v) \<and>
      np_mean_f64 xs = Fin v \<longrightarrow>
    compute_rms_size_f64 plim x = Inr (Fin 0)) \<and>
   ((\<forall>u \<in> set y. is_float64 u) \<and> rms_filtered plim y = Inr [w] \<longrightarrow>
      np_mean_f64 [w] = w \<and> compute_rms_size_f64 plim y = Inr (Fin 0)) \<and>
   rms_filtered (- 1 / 2, 1 / 2) [Fin (- 1), Fin 0, Fin 1] = Inr [Fin 0] \<and>
   compute_rms_size_f64 (- 1 / 2, 1 / 2) [Fin (- 1), Fin 0, Fin 1] = Inr (Fin 0)"
proof (intro conjI impI)
  assume "rms_filtered plim x = Inr xs \<and> xs \<noteq> [] \<and> (\<forall>u \<in> set xs. u = Fin v) \<and>
      np_mean_f64 xs = Fin v"
  then show "compute_rms_size_f64 plim x = Inr (Fin 0)"
    using compute_rms_size_f64_exact_mean by blast
next
  assume a: "(\<forall>u \<in> set y. is_float64 u) \<and> rms_filtered plim y = Inr [w]"
  then have f: "rms_filtered plim y = Inr [w]" by simp
  then have "filter (rms_mask_at plim) y = [w]"
    by (simp add: rms_filtered_def rms_mask_def bool_index_map)
  then have "w \<in> set (filter (rms_mask_at plim) y)" by simp
  then have in_y: "w \<in> set y" and "rms_mask_at plim w" by simp_all
  then obtain r where w: "w = Fin r"
    using rms_mask_at_Fin by blast
  from a in_y w have "round64 r = Fin r" by auto
  then have m: "np_mean_f64 [w] = w"
    unfolding w by (rule np_mean_f64_single)
  then show "np_mean_f64 [w] = w" .
  from f m w show "compute_rms_size_f64 plim y = Inr (Fin 0)"
    by (intro compute_rms_size_f64_exact_mean [of plim y "[w]" r]) simp_all
next
  show f0: "rms_filtered (- 1 / 2, 1 / 2) [Fin (- 1), Fin 0, Fin 1] = Inr [Fin 0]"
    by (simp add: rms_filtered_def rms_mask_def rms_mask_at_def bool_index_def)
  have "np_mean_f64 [Fin 0] = Fin 0"
    by (rule np_mean_f64_single [OF round64_0])
  with f0 show "compute_rms_size_f64 (- 1 / 2, 1 / 2) [Fin (- 1), Fin 0, Fin 1] = Inr (Fin 0)"
    by (intro compute_rms_size_f64_exact_mean [of _ _ "[Fin 0]" 0]) simp_all
qed

theorem C5_identical_values_rms_zero_f64_witness:
  "rms_filtered pos_lim [Fin 2, Fin 2, Fin 9, Fin 2, Fin 2] = Inr [Fin 2, Fin 2, Fin 2, Fin 2] \<and>
   np_mean_f64 [Fin 2, Fin 2, Fin 2, Fin 2] = Fin 2 \<and>
   compute_rms_size_f64 pos_lim [Fin 2, Fin 2, Fin 9, Fin 2, Fin 2] = Inr (Fin 0) \<and>
   is_float64 (Fin 3) \<and> is_float64 (Fin 8) \<and> is_float64 NaN \<and>
   rms_filtered pos_lim [Fin 3, Fin 8, NaN] = Inr [Fin 3] \<and>
   compute_rms_size_f64 pos_lim [Fin 3, Fin 8, NaN] = Inr (Fin 0)"
proof -
  note inst = C5_identical_values_rms_zero_f64 [of pos_lim "[Fin 2, Fin 2, Fin 9, Fin 2, Fin 2]"
      "[Fin 2, Fin 2, Fin 2, Fin 2]" 2 "[Fin 3, Fin 8, NaN]" "Fin 3"]
  have f: "rms_filtered pos_lim [Fin 2, Fin 2, Fin 9, Fin 2, Fin 2] = Inr [Fin 2, Fin 2, Fin 2, Fin 2]"
    by (simp add: rms_filtered_def rms_mask_def rms_mask_at_def bool_index_def pos_lim_def)
  have m: "np_mean_f64 [Fin 2, Fin 2, Fin 2, Fin 2] = Fin 2"
    by (simp add: np_mean_f64_def np_sum_f64_def f64_add_def f64_div_def r64_even)
  have h1: "rms_filtered pos_lim [Fin 2, Fin 2, Fin 9, Fin 2, Fin 2] = Inr [Fin 2, Fin 2, Fin 2, Fin 2] \<and>
      [Fin 2, Fin 2, Fin 2, Fin 2] \<noteq> [] \<and> (\<forall>u \<in> set [Fin 2, Fin 2, Fin 2, Fin 2]. u = Fin 2) \<and>
      np_mean_f64 [Fin 2, Fin 2, Fin 2, Fin 2] = Fin 2"
    using f m by simp
  have v: "is_float64 (Fin 3)" "is_float64 (Fin 8)" "is_float64 NaN"
    by (simp_all add: r64_small)
  have g: "rms_filtered pos_lim [Fin 3, Fin 8, NaN] = Inr [Fin 3]"
    by (simp add: rms_filtered_def rms_mask_def rms_mask_at_def bool_index_def pos_lim_def)
  have h2: "(\<forall>u \<in> set [Fin 3, Fin 8, NaN]. is_float64 u) \<and>
      rms_filtered pos_lim [Fin 3, Fin 8, NaN] = Inr [Fin 3]"
    using v g by simp
  from mp [OF conjunct1 [OF inst] h1] mp [OF conjunct1 [OF conjunct2 [OF inst]] h2] f m v g
  show ?thesis by (intro conjI) simp_all
qed


subsection \<open>The determinant of perfectly correlated samples\<close>





























































end
